theory Spec2Isabelle
  imports Complex_Main
begin

section \<open>Numbers\<close>

text \<open>
  The program computes with JavaScript numbers. They are modelled as the real numbers
  extended by the three special values of IEEE arithmetic that the program can produce by
  dividing by zero: \<open>PInf\<close> (Infinity), \<open>NInf\<close> (-Infinity) and \<open>NaN\<close>.
  Finite arithmetic is exact: rounding to 64-bit precision and overflow are not modelled.
  The sign of a zero is not tracked: the only division whose divisor can be zero is the one
  by \<open>maxX - minX\<close> in \<open>parseDatFile\<close>, and a difference of two equal numbers is \<open>+0\<close>.
\<close>

datatype jsnum = Fin real | PInf | NInf | NaN

fun jssign :: "jsnum \<Rightarrow> real" where
  "jssign (Fin r) = sgn r"
| "jssign PInf = 1"
| "jssign NInf = - 1"
| "jssign NaN = 0"

definition inf_of :: "real \<Rightarrow> jsnum" where
  "inf_of s = (if 0 < s then PInf else if s < 0 then NInf else NaN)"

fun jsneg :: "jsnum \<Rightarrow> jsnum" where
  "jsneg (Fin r) = Fin (- r)"
| "jsneg PInf = NInf"
| "jsneg NInf = PInf"
| "jsneg NaN = NaN"

fun jsadd :: "jsnum \<Rightarrow> jsnum \<Rightarrow> jsnum" where
  "jsadd NaN b = NaN"
| "jsadd a NaN = NaN"
| "jsadd (Fin a) (Fin b) = Fin (a + b)"
| "jsadd (Fin a) b = b"
| "jsadd a (Fin b) = a"
| "jsadd a b = (if a = b then a else NaN)"

definition jssub :: "jsnum \<Rightarrow> jsnum \<Rightarrow> jsnum" where
  "jssub a b = jsadd a (jsneg b)"

fun jsmul :: "jsnum \<Rightarrow> jsnum \<Rightarrow> jsnum" where
  "jsmul NaN b = NaN"
| "jsmul a NaN = NaN"
| "jsmul (Fin a) (Fin b) = Fin (a * b)"
| "jsmul a b = inf_of (jssign a * jssign b)"

fun jsdiv :: "jsnum \<Rightarrow> jsnum \<Rightarrow> jsnum" where
  "jsdiv NaN b = NaN"
| "jsdiv a NaN = NaN"
| "jsdiv (Fin a) (Fin b) = (if b = 0 then inf_of a else Fin (a / b))"
| "jsdiv (Fin a) b = Fin 0"
| "jsdiv a (Fin b) = inf_of (jssign a * (if b < 0 then - 1 else 1))"
| "jsdiv a b = NaN"

text \<open>The comparison \<open>a < b\<close>; every comparison with \<open>NaN\<close> is false.\<close>

fun jslt :: "jsnum \<Rightarrow> jsnum \<Rightarrow> bool" where
  "jslt NaN b = False"
| "jslt a NaN = False"
| "jslt (Fin a) (Fin b) = (a < b)"
| "jslt a NInf = False"
| "jslt NInf b = True"
| "jslt PInf b = False"
| "jslt a PInf = True"

definition jsgt :: "jsnum \<Rightarrow> jsnum \<Rightarrow> bool" where
  "jsgt a b = jslt b a"

definition jsle :: "jsnum \<Rightarrow> jsnum \<Rightarrow> bool" where
  "jsle a b = (jslt a b \<or> (a \<noteq> NaN \<and> a = b))"

text \<open>\<open>Math.max(a, b)\<close> and \<open>Math.min(a, b)\<close>: \<open>NaN\<close> if an argument is.\<close>

definition max2 :: "jsnum \<Rightarrow> jsnum \<Rightarrow> jsnum" where
  "max2 a b = (if a = NaN \<or> b = NaN then NaN else if jslt a b then b else a)"




section \<open>Data model (types.ts)\<close>

record Point =
  x :: jsnum
  y :: jsnum

record AirfoilData =
  name :: string
  points :: "Point list"
  originalThickness :: jsnum

text \<open>A thrown \<open>new Error(message)\<close>.\<close>

datatype error = Error string

section \<open>Text\<close>

text \<open>
  A JavaScript string is modelled as a list of 8-bit characters. The white space of
  \<open>trim\<close> and of the regular-expression class \<open>\s\<close> is, in this range: tab, line feed,
  vertical tab, form feed, carriage return, space and no-break space.
\<close>

definition is_space :: "char \<Rightarrow> bool" where
  "is_space c = (c \<in> set [CHR 0x09, CHR 0x0A, CHR 0x0B, CHR 0x0C, CHR 0x0D, CHR 0x20, CHR 0xA0])"

definition is_digit :: "char \<Rightarrow> bool" where
  "is_digit c = (c \<in> set ''0123456789'')"

definition digit_val :: "char \<Rightarrow> nat" where
  "digit_val c = of_char c - 48"

text \<open>The number that a sequence of decimal digits denotes.\<close>

definition read_nat :: "string \<Rightarrow> nat" where
  "read_nat s = foldl (\<lambda>n c. 10 * n + digit_val c) 0 s"

text \<open>\<open>s.trim()\<close>\<close>

definition trim :: "string \<Rightarrow> string" where
  "trim s = rev (dropWhile is_space (rev (dropWhile is_space s)))"

text \<open>\<open>s.split(sep)\<close> for a separator of one character: the pieces between the separators.\<close>

function js_split :: "string \<Rightarrow> char \<Rightarrow> string list" where
  "js_split s sep =
    (case dropWhile (\<lambda>c. c \<noteq> sep) s of
       [] \<Rightarrow> [s]
     | c # rest \<Rightarrow> takeWhile (\<lambda>c. c \<noteq> sep) s # js_split rest sep)"
  by pat_completeness auto
termination
proof (relation "measure (\<lambda>(s, sep). length s)")
  show "wf (measure (\<lambda>(s, sep). length s))" by simp
next
  fix s :: string and sep c :: char and rest :: string
  assume "dropWhile (\<lambda>c. c \<noteq> sep) s = c # rest"
  then have "length (c # rest) \<le> length s"
    using length_dropWhile_le [of "\<lambda>c. c \<noteq> sep" s] by simp
  then show "((rest, sep), (s, sep)) \<in> measure (\<lambda>(s, sep). length s)" by simp
qed

declare js_split.simps [simp del]


text \<open>
  \<open>parseFloat(s)\<close>: after leading white space and an optional sign, either \<open>Infinity\<close> or
  the longest prefix that is a decimal literal: digits, optionally a point and digits, with
  a digit on one side of the point at least, and optionally an exponent, which counts only
  if it has a digit. The result is \<open>NaN\<close> without such a prefix. The value is exact.
\<close>

definition exponent :: "string \<Rightarrow> int" where
  "exponent s =
    (case s of
       [] \<Rightarrow> 0
     | c # t \<Rightarrow>
        if c = CHR ''e'' \<or> c = CHR ''E'' then
          (let neg = (case t of [] \<Rightarrow> False | d # u \<Rightarrow> d = CHR ''-'');
               t = (case t of [] \<Rightarrow> []
                    | d # u \<Rightarrow> if d = CHR ''-'' \<or> d = CHR ''+'' then u else t);
               es = takeWhile is_digit t
           in if neg then - int (read_nat es) else int (read_nat es))
        else 0)"

definition scale10 :: "real \<Rightarrow> int \<Rightarrow> real" where
  "scale10 m e = (if 0 \<le> e then m * 10 ^ nat e else m / 10 ^ nat (- e))"

definition parseFloat :: "string \<Rightarrow> jsnum" where
  "parseFloat str =
    (let s = dropWhile is_space str;
         neg = (case s of [] \<Rightarrow> False | c # t \<Rightarrow> c = CHR ''-'');
         s = (case s of [] \<Rightarrow> []
              | c # t \<Rightarrow> if c = CHR ''-'' \<or> c = CHR ''+'' then t else s)
     in if take 8 s = ''Infinity'' then (if neg then NInf else PInf)
        else
          (let ip = takeWhile is_digit s;
               r1 = dropWhile is_digit s;
               fp = (case r1 of [] \<Rightarrow> []
                     | c # t \<Rightarrow> if c = CHR ''.'' then takeWhile is_digit t else []);
               r2 = (case r1 of [] \<Rightarrow> []
                     | c # t \<Rightarrow> if c = CHR ''.'' then dropWhile is_digit t else r1);
               v = scale10 (real (read_nat (ip @ fp)) / 10 ^ length fp) (exponent r2)
           in if ip = [] \<and> fp = [] then NaN
              else Fin (if neg then - v else v)))"

section \<open>Regular expressions\<close>

text \<open>
  The fragment of JavaScript's regular expressions that \<open>coordinateRegex\<close> is written in:
  character classes, concatenation, the greedy quantifiers \<open>?\<close>, \<open>*\<close> and \<open>+\<close>, and
  capturing groups. \<open>r+\<close> is \<open>r\<close> followed by \<open>r*\<close>; a non-capturing group \<open>(?:r)\<close> is \<open>r\<close>.
\<close>

datatype cclass = Digit | Space | OneOf string

fun in_class :: "cclass \<Rightarrow> char \<Rightarrow> bool" where
  "in_class Digit c = is_digit c"
| "in_class Space c = is_space c"
| "in_class (OneOf cs) c = (c \<in> set cs)"

datatype regex = Chr cclass | Seq regex regex | Opt regex | Star regex | Group regex

abbreviation Plus :: "regex \<Rightarrow> regex" where
  "Plus r \<equiv> Seq r (Star r)"

text \<open>
  The backtracking matcher. A state is the text that is left and the captures made so far;
  \<open>run r st\<close> lists the states in which a match of \<open>r\<close> from \<open>st\<close> can end, in the order
  in which backtracking tries them: a greedy quantifier tries one more repetition first.
  A repetition of \<open>*\<close> that consumes nothing is rejected.
\<close>

fun run :: "regex \<Rightarrow> string \<times> string list \<Rightarrow> (string \<times> string list) list" where
  "run (Chr c) (s, caps) =
    (case s of [] \<Rightarrow> [] | a # t \<Rightarrow> if in_class c a then [(t, caps)] else [])"
| "run (Seq r1 r2) st = concat (map (run r2) (run r1 st))"
| "run (Opt r) st = run r st @ [st]"
| "run (Star r) (s, caps) =
    concat (map (\<lambda>(s', caps'). if length s' < length s then run (Star r) (s', caps') else [])
              (run r (s, caps)))
    @ [(s, caps)]"
| "run (Group r) (s, caps) =
    map (\<lambda>(s', caps'). (s', caps' @ [take (length s - length s') s])) (run r (s, caps))"

declare run.simps [simp del]

text \<open>
  \<open>s.match(r)\<close> for a pattern \<open>^r$\<close> without flags: the first way to match \<open>r\<close> from the
  start of \<open>s\<close> that ends at the end of \<open>s\<close> gives the array of the whole match and the
  captures; \<open>None\<close> is \<open>null\<close>.
\<close>

definition regex_match :: "regex \<Rightarrow> string \<Rightarrow> string list option" where
  "regex_match r s =
    (case filter (\<lambda>(rest, caps). rest = []) (run r (s, [])) of
       [] \<Rightarrow> None
     | (rest, caps) # others \<Rightarrow> Some (s # caps))"

section \<open>parseDatFile\<close>

text \<open>\<open>[+-]?\d*\.?\d+(?:[eE][+-]?\d+)?\<close>\<close>

definition numberRegex :: regex where
  "numberRegex =
    Seq (Opt (Chr (OneOf ''+-'')))
     (Seq (Star (Chr Digit))
      (Seq (Opt (Chr (OneOf ''.'')))
       (Seq (Plus (Chr Digit))
        (Opt (Seq (Chr (OneOf ''eE''))
              (Seq (Opt (Chr (OneOf ''+-''))) (Plus (Chr Digit))))))))"

text \<open>\<open>/^\s*(number)\s+(number)\s*$/\<close>\<close>

definition coordinateRegex :: regex where
  "coordinateRegex =
    Seq (Star (Chr Space))
     (Seq (Group numberRegex)
      (Seq (Plus (Chr Space))
       (Seq (Group numberRegex)
        (Star (Chr Space)))))"

text \<open>
  The loop over the lines, with the index \<open>i\<close> of the line at the head of the list and the
  variables \<open>points\<close>, \<open>name\<close> and \<open>headerFound\<close> that it updates.
\<close>

fun scan :: "nat \<Rightarrow> string list \<Rightarrow> Point list \<times> string \<times> bool \<Rightarrow> Point list \<times> string \<times> bool" where
  "scan i [] st = st"
| "scan i (line # rest) (pts, nm, headerFound) =
    (case regex_match coordinateRegex line of
       Some m \<Rightarrow>
         scan (i + 1) rest
           (pts @ [\<lparr> x = parseFloat (m ! 1), y = parseFloat (m ! 2) \<rparr>], nm, headerFound)
     | None \<Rightarrow>
         if i = 0 \<and> \<not> headerFound then scan (i + 1) rest (pts, line, True)
         else scan (i + 1) rest (pts, nm, headerFound))"

text \<open>The non-empty trimmed lines of the content.\<close>

definition content_lines :: "string \<Rightarrow> string list" where
  "content_lines content = filter (\<lambda>l. 0 < length l) (map trim (js_split content (CHR 0x0A)))"


section \<open>transformPoints\<close>

text \<open>
  \<open>transformPoints\<close> has no \<open>throw\<close>; it returns in the right summand of the result type
  shared with the functions that can fail.
\<close>

definition transformPoints :: "AirfoilData \<Rightarrow> jsnum \<Rightarrow> jsnum \<Rightarrow> error + Point list" where
  "transformPoints data targetChord targetThicknessPercent =
    (let currentMaxThickness = originalThickness data;
         targetMaxThicknessRatio = jsdiv targetThicknessPercent (Fin 100);
         yScale = (if jsgt currentMaxThickness (Fin 0)
                   then jsdiv targetMaxThicknessRatio currentMaxThickness
                   else Fin 1)
     in Inr (map (\<lambda>p. \<lparr> x = jsmul (x p) targetChord,
                         y = jsmul (jsmul (y p) yScale) targetChord \<rparr>) (points data)))"

section \<open>Number formatting: toFixed\<close>

abbreviation NL :: string where
  "NL \<equiv> [CHR 0x0A]"

definition digit_char :: "nat \<Rightarrow> char" where
  "digit_char d = ''0123456789'' ! d"

text \<open>The decimal digits of a natural number, \<open>''0''\<close> for zero.\<close>

function decimal :: "nat \<Rightarrow> string" where
  "decimal n = (if n < 10 then [digit_char n] else decimal (n div 10) @ [digit_char (n mod 10)])"
  by pat_completeness auto
termination
  by (relation "measure (\<lambda>n. n)") auto

declare decimal.simps [simp del]

text \<open>
  \<open>Number::toString\<close> on a number \<open>v \<ge> 10^21\<close>: the digits \<open>s\<close> of the shortest decimal
  \<open>s * 10^(n - k)\<close> that denotes \<open>v\<close>, the first digit followed by \<open>.\<close> and the others when
  there are several, then \<open>e+\<close> and the exponent \<open>n - 1\<close>. Every 64-bit number of this size is
  an integer; without rounding, the shortest decimal denoting it is the integer with its
  trailing zeros removed.
\<close>

definition toString_large :: "real \<Rightarrow> string" where
  "toString_large v =
    (let ds = decimal (nat \<lfloor>v\<rfloor>);
         s = rev (dropWhile (\<lambda>c. c = CHR ''0'') (rev ds))
     in (if length s = 1 then s else hd s # CHR ''.'' # tl s) @ ''e+'' @ decimal (length ds - 1))"

text \<open>
  \<open>v.toFixed(f)\<close> (ECMAScript, Number.prototype.toFixed): a number that is not finite is
  printed by name; a negative one gives the sign and is negated; from \<open>10^21\<close> upwards the
  result is \<open>Number::toString\<close>; otherwise \<open>n\<close> is the integer nearest to \<open>v * 10^f\<close>, the larger
  one of two, its digits are padded with zeros on the left to \<open>f + 1\<close> digits, and the point
  goes before the last \<open>f\<close> digits.
\<close>

definition toFixed :: "jsnum \<Rightarrow> nat \<Rightarrow> string" where
  "toFixed v f =
    (case v of
       NaN \<Rightarrow> ''NaN''
     | PInf \<Rightarrow> ''Infinity''
     | NInf \<Rightarrow> ''-Infinity''
     | Fin r \<Rightarrow>
        (let s = (if r < 0 then ''-'' else []);
             a = (if r < 0 then - r else r)
         in if 10 ^ 21 \<le> a then s @ toString_large a
            else
              (let n = nat \<lfloor>a * 10 ^ f + 1 / 2\<rfloor>;
                   m = decimal n;
                   k = length m;
                   m = (if k \<le> f then replicate (f + 1 - k) (CHR ''0'') @ m else m);
                   k = length m
               in if f \<noteq> 0 then s @ take (k - f) m @ ''.'' @ drop (k - f) m else s @ m)))"

section \<open>generateCSV and generateDXF\<close>

text \<open>Each \<open>forEach\<close> appends to the output point by point: a fold from the left.\<close>

definition generateCSV :: "Point list \<Rightarrow> string" where
  "generateCSV ps =
    foldl (\<lambda>output p. output @ toFixed (x p) 6 @ '','' @ toFixed (y p) 6 @ '',0.000000'' @ NL)
      (''X,Y,Z'' @ NL) ps"

definition generateDXF :: "Point list \<Rightarrow> string" where
  "generateDXF ps =
    (let dxf = ''0'' @ NL @ ''SECTION'' @ NL @ ''2'' @ NL @ ''ENTITIES'' @ NL;
         dxf = dxf @ ''0'' @ NL @ ''POLYLINE'' @ NL @ ''8'' @ NL @ ''0'' @ NL @ ''66'' @ NL @ ''1'' @ NL;
         dxf = foldl (\<lambda>dxf p.
                   (let dxf = dxf @ ''0'' @ NL @ ''VERTEX'' @ NL @ ''8'' @ NL @ ''0'' @ NL;
                        dxf = dxf @ ''10'' @ NL @ toFixed (x p) 6 @ NL;
                        dxf = dxf @ ''20'' @ NL @ toFixed (y p) 6 @ NL;
                        dxf = dxf @ ''30'' @ NL @ ''0.0'' @ NL
                    in dxf)) dxf ps;
         dxf = dxf @ ''0'' @ NL @ ''SEQEND'' @ NL;
         dxf = dxf @ ''0'' @ NL @ ''ENDSEC'' @ NL;
         dxf = dxf @ ''0'' @ NL @ ''EOF'' @ NL
     in dxf)"

section \<open>AirfoilViewer: the scales of the drawing\<close>

text \<open>
  The rendering effect of \<open>AirfoilViewer\<close> computes the domains and the scales of the
  drawing from the points and the size of the container, and draws with them. The model
  stops at the scales. \<open>d3\<close> is a library, not part of the repository: of it the model
  needs \<open>d3.extent\<close> and the linear scale.
\<close>

record Dimensions =
  width :: jsnum
  height :: jsnum

text \<open>
  Modelled from the spec: \<open>d3.extent\<close> is library code, not under \<open>src/\<close>. The spec has
  \<open>xExtent = [min x, max x]\<close> over the points. As the library documents it, values that do
  not compare with themselves (\<open>NaN\<close>) are skipped, and without any other value both ends
  are \<open>undefined\<close>, which the arithmetic that follows turns into \<open>NaN\<close>.
\<close>

fun extent_step :: "(jsnum \<times> jsnum) option \<Rightarrow> jsnum \<Rightarrow> (jsnum \<times> jsnum) option" where
  "extent_step None v = (if jsle v v then Some (v, v) else None)"
| "extent_step (Some (lo, hi)) v =
    Some (if jsgt lo v then v else lo, if jslt hi v then v else hi)"

definition d3_extent :: "jsnum list \<Rightarrow> jsnum \<times> jsnum" where
  "d3_extent vs = (case foldl extent_step None vs of None \<Rightarrow> (NaN, NaN) | Some e \<Rightarrow> e)"

text \<open>\<open>d3.scaleLinear().domain(d).range(r)\<close>: a scale is given by its domain and its range.\<close>

record LinearScale =
  scale_domain :: "jsnum \<times> jsnum"
  scale_range :: "jsnum \<times> jsnum"

text \<open>
  Modelled from the spec: the scale of \<open>d3.scaleLinear\<close> is library code, not under
  \<open>src/\<close>. The spec has it map the domain linearly onto the range: a value at the fraction
  \<open>t\<close> of the way through the domain goes to the fraction \<open>t\<close> of the way through the range.
  As the library documents it, \<open>t\<close> is one half when the domain has no width.
\<close>

definition scale_apply :: "LinearScale \<Rightarrow> jsnum \<Rightarrow> jsnum" where
  "scale_apply s v =
    (let d0 = fst (scale_domain s); d1 = snd (scale_domain s);
         r0 = fst (scale_range s); r1 = snd (scale_range s);
         span = jssub d1 d0;
         t = (if span = NaN then NaN else if span = Fin 0 then Fin (1 / 2)
              else jsdiv (jssub v d0) span)
     in jsadd (jsmul r0 (jssub (Fin 1) t)) (jsmul r1 t))"

text \<open>What the effect computes.\<close>

record Projection =
  xDomain :: "jsnum \<times> jsnum"
  yDomain :: "jsnum \<times> jsnum"
  xScale :: LinearScale
  yScale :: LinearScale

text \<open>
  The effect up to the scales. \<open>mounted\<close> says that \<open>svgRef.current\<close> is set. The effect
  returns at once, having drawn nothing, when the element is not mounted, when there is no
  point or when the width is \<open>0\<close>: that is the result \<open>None\<close>. It has no \<open>throw\<close>.
\<close>

definition AirfoilViewer_scales :: "bool \<Rightarrow> Point list \<Rightarrow> Dimensions \<Rightarrow> error + Projection option" where
  "AirfoilViewer_scales mounted pts dimensions =
    (if \<not> mounted \<or> length pts = 0 \<or> width dimensions = Fin 0 then Inr None
     else
       (let margin_top = Fin 40; margin_right = Fin 40; margin_bottom = Fin 40; margin_left = Fin 50;
            w = jssub (jssub (width dimensions) margin_left) margin_right;
            h = jssub (jssub (height dimensions) margin_top) margin_bottom;
            xExtent = d3_extent (map x pts);
            yExtent = d3_extent (map y pts);
            dataWidth = jssub (snd xExtent) (fst xExtent);
            dataHeight = jssub (snd yExtent) (fst yExtent);
            xPad = jsmul dataWidth (Fin (1 / 10));
            minHeight = jsmul dataWidth (Fin (3 / 10));
            effectiveHeight = max2 dataHeight minHeight;
            yPad = jsmul effectiveHeight (Fin (1 / 2));
            xDom = (jssub (fst xExtent) xPad, jsadd (snd xExtent) xPad);
            yDom = (jssub (fst yExtent) yPad, jsadd (snd yExtent) yPad)
        in Inr (Some \<lparr> xDomain = xDom, yDomain = yDom,
                        xScale = \<lparr> scale_domain = xDom, scale_range = (Fin 0, w) \<rparr>,
                        yScale = \<lparr> scale_domain = yDom, scale_range = (h, Fin 0) \<rparr> \<rparr>)))"

section \<open>Reading the exported text\<close>

text \<open>
  What it means for a text to be a number fixed to \<open>f\<close> fractional digits: an optional
  minus sign, one or more digits, a point and exactly \<open>f\<close> digits (\<open>fixed_decimal\<close>), whose
  value (\<open>fixed_value\<close>) is within half a unit of the last digit of the number.
\<close>

definition fixed_decimal :: "nat \<Rightarrow> string \<Rightarrow> bool" where
  "fixed_decimal f s =
    (let u = (case s of [] \<Rightarrow> [] | c # t \<Rightarrow> if c = CHR ''-'' then t else s);
         ip = takeWhile is_digit u;
         rest = dropWhile is_digit u
     in ip \<noteq> [] \<and>
        (case rest of [] \<Rightarrow> False
         | c # fp \<Rightarrow> c = CHR ''.'' \<and> length fp = f \<and> list_all is_digit fp))"

definition fixed_value :: "string \<Rightarrow> real" where
  "fixed_value s =
    (let neg = (case s of [] \<Rightarrow> False | c # t \<Rightarrow> c = CHR ''-'');
         u = (if neg then tl s else s);
         ip = takeWhile is_digit u;
         fp = drop 1 (dropWhile is_digit u);
         v = real (read_nat ip) + real (read_nat fp) / 10 ^ length fp
     in if neg then - v else v)"

definition shows_fixed :: "nat \<Rightarrow> jsnum \<Rightarrow> string \<Rightarrow> bool" where
  "shows_fixed f v s =
    (case v of
       Fin r \<Rightarrow> fixed_decimal f s \<and> \<bar>fixed_value s - r\<bar> \<le> 1 / (2 * 10 ^ f)
     | _ \<Rightarrow> False)"

text \<open>The numbers that \<open>toFixed\<close> prints in positional notation.\<close>

definition in_fixed_range :: "jsnum \<Rightarrow> bool" where
  "in_fixed_range v = (case v of Fin r \<Rightarrow> \<bar>r\<bar> < 10 ^ 21 | _ \<Rightarrow> False)"

text \<open>A sequence of group-code/value pairs, each on two lines.\<close>

definition group_pairs :: "(string \<times> string) list \<Rightarrow> string" where
  "group_pairs gs = concat (map (\<lambda>(code, val). code @ NL @ val @ NL) gs)"

section \<open>Reading the parser\<close>

text \<open>
  A line is recognized as a coordinate line when the match is not \<open>null\<close>; it then gives
  the point of its two captures. The recognized points of a content are the points of its
  recognized lines, in the order of the lines.
\<close>

definition recognized :: "string \<Rightarrow> bool" where
  "recognized l = (regex_match coordinateRegex l \<noteq> None)"

definition coordinate_point :: "string \<Rightarrow> Point" where
  "coordinate_point l =
    (case regex_match coordinateRegex l of
       None \<Rightarrow> \<lparr> x = NaN, y = NaN \<rparr>
     | Some m \<Rightarrow> \<lparr> x = parseFloat (m ! 1), y = parseFloat (m ! 2) \<rparr>)"

definition raw_points :: "string \<Rightarrow> Point list" where
  "raw_points content = map coordinate_point (filter recognized (content_lines content))"

text \<open>A point with finite coordinates.\<close>

definition finite_point :: "real \<times> real \<Rightarrow> Point" where
  "finite_point c = \<lparr> x = Fin (fst c), y = Fin (snd c) \<rparr>"



section \<open>The projection in words\<close>

text \<open>
  The domains as the specification computes them from the points, over the reals, and the
  linear map of a domain onto a range.
\<close>

definition spec_xDomain :: "(real \<times> real) list \<Rightarrow> real \<times> real" where
  "spec_xDomain rs =
    (let minX = Min (fst ` set rs); maxX = Max (fst ` set rs);
         dataWidth = maxX - minX;
         xPad = dataWidth * (1 / 10)
     in (minX - xPad, maxX + xPad))"

definition spec_yDomain :: "(real \<times> real) list \<Rightarrow> real \<times> real" where
  "spec_yDomain rs =
    (let minX = Min (fst ` set rs); maxX = Max (fst ` set rs);
         minY = Min (snd ` set rs); maxY = Max (snd ` set rs);
         dataWidth = maxX - minX;
         dataHeight = maxY - minY;
         minHeight = dataWidth * (3 / 10);
         effectiveHeight = max dataHeight minHeight;
         yPad = effectiveHeight * (1 / 2)
     in (minY - yPad, maxY + yPad))"

definition fin_pair :: "real \<times> real \<Rightarrow> jsnum \<times> jsnum" where
  "fin_pair p = (Fin (fst p), Fin (snd p))"

definition linear_map :: "real \<times> real \<Rightarrow> real \<times> real \<Rightarrow> real \<Rightarrow> real" where
  "linear_map d r v = fst r + (v - fst d) / (snd d - fst d) * (snd r - fst r)"

section \<open>The language of a regular expression\<close>

inductive_set kleene :: "string set \<Rightarrow> string set" for L :: "string set" where
  empty: "[] \<in> kleene L"
| more: "a \<in> L \<Longrightarrow> b \<in> kleene L \<Longrightarrow> a @ b \<in> kleene L"

fun lang :: "regex \<Rightarrow> string set" where
  "lang (Chr c) = {[a] | a. in_class c a}"
| "lang (Seq r1 r2) = {a @ b | a b. a \<in> lang r1 \<and> b \<in> lang r2}"
| "lang (Opt r) = insert [] (lang r)"
| "lang (Star r) = kleene (lang r)"
| "lang (Group r) = lang r"

text \<open>
  The states in which \<open>run r st\<close> ends are those that a word of the language of \<open>r\<close>
  leads to.
\<close>

definition ends :: "regex \<Rightarrow> string \<times> string list \<Rightarrow> bool" where
  "ends r st = (fst ` set (run r st) = {s'. \<exists>p. p \<in> lang r \<and> fst st = p @ s'})"

section \<open>Captures\<close>

text \<open>
  The number of captures of an expression whose groups are under no quantifier, as in
  \<open>coordinateRegex\<close>.
\<close>

fun groupless :: "regex \<Rightarrow> bool" where
  "groupless (Chr c) = True"
| "groupless (Seq r1 r2) = (groupless r1 \<and> groupless r2)"
| "groupless (Opt r) = groupless r"
| "groupless (Star r) = groupless r"
| "groupless (Group r) = False"

fun well_grouped :: "regex \<Rightarrow> bool" where
  "well_grouped (Chr c) = True"
| "well_grouped (Seq r1 r2) = (well_grouped r1 \<and> well_grouped r2)"
| "well_grouped (Opt r) = groupless r"
| "well_grouped (Star r) = groupless r"
| "well_grouped (Group r) = well_grouped r"

fun group_count :: "regex \<Rightarrow> nat" where
  "group_count (Chr c) = 0"
| "group_count (Seq r1 r2) = group_count r1 + group_count r2"
| "group_count (Opt r) = 0"
| "group_count (Star r) = 0"
| "group_count (Group r) = Suc (group_count r)"

text \<open>
  What a match of an expression does to the captures: without a group it keeps them, and
  with groups under no quantifier it adds one capture for each group.
\<close>

definition keeps :: "regex \<Rightarrow> string \<times> string list \<Rightarrow> bool" where
  "keeps r st = (\<forall>m \<in> set (run r st). snd m = snd st)"

definition counts :: "regex \<Rightarrow> string \<times> string list \<Rightarrow> bool" where
  "counts r st = (\<forall>m \<in> set (run r st). length (snd m) = length (snd st) + group_count r)"

section \<open>Coordinate lines in words\<close>

text \<open>
  The numbers that \<open>numberRegex\<close> accepts: an optional sign, digits or none, an optional
  point, one or more digits, and an optional exponent: \<open>e\<close> or \<open>E\<close>, an optional sign and one
  or more digits. A line of two numbers: a number, white space, a number.
\<close>

definition sign_part :: "string \<Rightarrow> bool" where
  "sign_part s = (s = [] \<or> s = ''+'' \<or> s = ''-'')"

definition exponent_part :: "string \<Rightarrow> bool" where
  "exponent_part s =
    (s = [] \<or>
     (\<exists>e sg ds. s = e # sg @ ds \<and> (e = CHR ''e'' \<or> e = CHR ''E'') \<and> sign_part sg
        \<and> ds \<noteq> [] \<and> list_all is_digit ds))"

definition js_number :: "string \<Rightarrow> bool" where
  "js_number s =
    (\<exists>sg ip pt fp ex. s = sg @ ip @ pt @ fp @ ex \<and> sign_part sg \<and> list_all is_digit ip
        \<and> (pt = [] \<or> pt = ''.'') \<and> fp \<noteq> [] \<and> list_all is_digit fp \<and> exponent_part ex)"

definition two_numbers :: "string \<Rightarrow> bool" where
  "two_numbers l =
    (\<exists>a w b. l = a @ w @ b \<and> js_number a \<and> w \<noteq> [] \<and> list_all is_space w \<and> js_number b)"

text \<open>
  The numbers as the specification words them: an optional sign, digits, an optional
  decimal fraction (a point and digits) and an optional exponent.
\<close>

definition spec_number :: "string \<Rightarrow> bool" where
  "spec_number s =
    (\<exists>sg ip fr ex. s = sg @ ip @ fr @ ex \<and> sign_part sg \<and> ip \<noteq> [] \<and> list_all is_digit ip
        \<and> (fr = [] \<or> (\<exists>fp. fr = CHR ''.'' # fp \<and> fp \<noteq> [] \<and> list_all is_digit fp))
        \<and> exponent_part ex)"

definition spec_two_numbers :: "string \<Rightarrow> bool" where
  "spec_two_numbers l =
    (\<exists>a w b. l = a @ w @ b \<and> spec_number a \<and> w \<noteq> [] \<and> list_all is_space w \<and> spec_number b)"

section \<open>Arithmetic facts\<close>

lemma jsmul_one [simp]: "jsmul v (Fin 1) = v"
  by (cases v) (simp_all add: inf_of_def)

lemma jsgt_Fin [simp]: "jsgt (Fin a) (Fin b) = (b < a)"
  by (simp add: jsgt_def)

lemma jsgt_zero_cases: "jsgt v (Fin 0) = (v = PInf \<or> (\<exists>r. v = Fin r \<and> 0 < r))"
  by (cases v) (simp_all add: jsgt_def)

section \<open>Properties of transformPoints\<close>

text \<open>
  C3. For a positive chord and a positive thickness percentage, \<open>transformPoints\<close> maps
  every normalized point \<open>(nx, ny)\<close>, in order, to \<open>(nx * chord, ny * yScale * chord)\<close>,
  where \<open>yScale\<close> is \<open>(thicknessPercent / 100) / normalizedThickness\<close> when the normalized
  thickness is positive and \<open>1\<close> when it is zero. With chord 200, thickness percentage 10
  and normalized thickness 0.1 every output y is the normalized y times 200.
\<close>

theorem transformPoints_scales:
  assumes "jsgt chord (Fin 0)" and "jsgt thicknessPercent (Fin 0)"
    and "jsgt (originalThickness data) (Fin 0) \<or> originalThickness data = Fin 0"
  shows "transformPoints data chord thicknessPercent =
      Inr (map (\<lambda>p. \<lparr> x = jsmul (x p) chord,
                       y = jsmul (jsmul (y p)
                             (if originalThickness data = Fin 0 then Fin 1
                              else jsdiv (jsdiv thicknessPercent (Fin 100)) (originalThickness data)))
                             chord \<rparr>) (points data))
    \<and> (chord = Fin 200 \<and> thicknessPercent = Fin 10 \<and> originalThickness data = Fin (1 / 10) \<longrightarrow>
        transformPoints data chord thicknessPercent =
          Inr (map (\<lambda>p. \<lparr> x = jsmul (x p) (Fin 200), y = jsmul (y p) (Fin 200) \<rparr>) (points data)))"
proof (intro conjI impI)
  show "transformPoints data chord thicknessPercent =
      Inr (map (\<lambda>p. \<lparr> x = jsmul (x p) chord,
                       y = jsmul (jsmul (y p)
                             (if originalThickness data = Fin 0 then Fin 1
                              else jsdiv (jsdiv thicknessPercent (Fin 100)) (originalThickness data)))
                             chord \<rparr>) (points data))"
    using assms(3) by (auto simp add: transformPoints_def Let_def)
next
  assume h: "chord = Fin 200 \<and> thicknessPercent = Fin 10 \<and> originalThickness data = Fin (1 / 10)"
  then show "transformPoints data chord thicknessPercent =
          Inr (map (\<lambda>p. \<lparr> x = jsmul (x p) (Fin 200), y = jsmul (y p) (Fin 200) \<rparr>) (points data))"
    by (simp add: transformPoints_def Let_def)
qed

theorem transformPoints_scales_witness:
  "transformPoints \<lparr> name = ''naca'', points = [\<lparr> x = Fin (1 / 2), y = Fin (1 / 20) \<rparr>],
                     originalThickness = Fin (1 / 10) \<rparr> (Fin 200) (Fin 10)
     = Inr [\<lparr> x = Fin 100, y = Fin 10 \<rparr>]
   \<and> transformPoints \<lparr> name = ''flat'', points = [\<lparr> x = Fin (1 / 2), y = Fin 0 \<rparr>],
                     originalThickness = Fin 0 \<rparr> (Fin 200) (Fin 10)
     = Inr [\<lparr> x = Fin 100, y = Fin 0 \<rparr>]"
  using transformPoints_scales [of "Fin 200" "Fin 10"
          "\<lparr> name = ''naca'', points = [\<lparr> x = Fin (1 / 2), y = Fin (1 / 20) \<rparr>],
             originalThickness = Fin (1 / 10) \<rparr>"]
        transformPoints_scales [of "Fin 200" "Fin 10"
          "\<lparr> name = ''flat'', points = [\<lparr> x = Fin (1 / 2), y = Fin 0 \<rparr>],
             originalThickness = Fin 0 \<rparr>"]
  by simp

text \<open>
  C4 (as stated): \<open>transformPoints\<close> fails when the chord or the thickness percentage is
  not positive. It does not: with chord 0 it returns every point scaled to the origin.
\<close>

theorem transformPoints_nonpositive_chord_returns:
  "transformPoints \<lparr> name = ''naca'', points = [\<lparr> x = Fin 1, y = Fin (1 / 20) \<rparr>],
                     originalThickness = Fin (1 / 10) \<rparr> (Fin 0) (Fin 10)
     = Inr [\<lparr> x = Fin 0, y = Fin 0 \<rparr>]
   \<and> transformPoints \<lparr> name = ''naca'', points = [\<lparr> x = Fin 1, y = Fin (1 / 20) \<rparr>],
                     originalThickness = Fin (1 / 10) \<rparr> (Fin 100) (Fin (- 10))
     = Inr [\<lparr> x = Fin 100, y = Fin (- 5) \<rparr>]"
  by (simp add: transformPoints_def Let_def)

text \<open>
  C4 (amended): \<open>transformPoints\<close> never fails, whatever the chord and the thickness
  percentage are: it returns one point for each point of the data.
\<close>

theorem transformPoints_total:
  "\<exists>ps. transformPoints data chord thicknessPercent = Inr ps \<and> length ps = length (points data)"
  by (simp add: transformPoints_def Let_def)

section \<open>Facts about toFixed\<close>

lemma digit_char_cases:
  assumes "d < 10"
  shows "d = 0 \<or> d = 1 \<or> d = 2 \<or> d = 3 \<or> d = 4 \<or> d = 5 \<or> d = 6 \<or> d = 7 \<or> d = 8 \<or> d = (9::nat)"
  using assms by arith

lemma is_digit_digit_char: "d < 10 \<Longrightarrow> is_digit (digit_char d)"
  using digit_char_cases [of d] by (auto simp add: is_digit_def digit_char_def)

lemma digit_val_digit_char: "d < 10 \<Longrightarrow> digit_val (digit_char d) = d"
  using digit_char_cases [of d] by (auto simp add: digit_val_def digit_char_def)

lemma decimal_digits: "list_all is_digit (decimal n)"
proof (induction n rule: decimal.induct)
  case (1 n)
  show ?case
  proof (cases "n < 10")
    case True
    then show ?thesis by (simp add: decimal.simps [of n] is_digit_digit_char)
  next
    case False
    with 1 show ?thesis by (simp add: decimal.simps [of n] is_digit_digit_char)
  qed
qed

lemma decimal_nonempty: "decimal n \<noteq> []"
  by (simp add: decimal.simps [of n])

lemma read_nat_append: "read_nat (a @ b) = read_nat a * 10 ^ length b + read_nat b"
proof (induction b rule: rev_induct)
  case Nil
  show ?case by (simp add: read_nat_def)
next
  case (snoc c b)
  have "read_nat (a @ b @ [c]) = 10 * read_nat (a @ b) + digit_val c"
    by (simp add: read_nat_def)
  also have "\<dots> = 10 * (read_nat a * 10 ^ length b + read_nat b) + digit_val c"
    by (simp add: snoc.IH)
  also have "\<dots> = read_nat a * 10 ^ length (b @ [c]) + read_nat (b @ [c])"
    by (simp add: read_nat_def algebra_simps)
  finally show ?case by simp
qed

lemma read_nat_decimal: "read_nat (decimal n) = n"
proof (induction n rule: decimal.induct)
  case (1 n)
  show ?case
  proof (cases "n < 10")
    case True
    then show ?thesis by (simp add: decimal.simps [of n] read_nat_def digit_val_digit_char)
  next
    case False
    with 1 have "read_nat (decimal (n div 10)) = n div 10" by simp
    with False show ?thesis
      by (simp add: decimal.simps [of n] read_nat_append)
         (simp add: read_nat_def digit_val_digit_char)
  qed
qed

lemma read_nat_zeros: "read_nat (replicate k (CHR ''0'') @ m) = read_nat m"
  by (induction k) (simp_all add: read_nat_def digit_val_def)

lemma is_digit_zero: "is_digit (CHR ''0'')"
  by (simp add: is_digit_def)

lemma minus_not_digit: "\<not> is_digit (CHR ''-'')" and dot_not_digit: "\<not> is_digit (CHR ''.'')"
  by (simp_all add: is_digit_def)

lemma toFixed_Fin_small:
  assumes "\<not> 10 ^ 21 \<le> (if r < 0 then - r else r)" and "f \<noteq> 0"
  shows "toFixed (Fin r) f =
    (let m0 = decimal (nat \<lfloor>(if r < 0 then - r else r) * 10 ^ f + 1 / 2\<rfloor>);
         m = (if length m0 \<le> f then replicate (f + 1 - length m0) (CHR ''0'') @ m0 else m0)
     in (if r < 0 then ''-'' else []) @ take (length m - f) m @ ''.'' @ drop (length m - f) m)"
  using assms by (simp add: toFixed_def Let_def)

lemma toFixed_small:
  assumes "\<bar>r\<bar> < 10 ^ 21"
  shows "\<exists>ip fp. toFixed (Fin r) 6 = (if r < 0 then ''-'' else []) @ ip @ ''.'' @ fp
            \<and> ip \<noteq> [] \<and> list_all is_digit ip \<and> list_all is_digit fp \<and> length fp = 6
            \<and> read_nat (ip @ fp) = nat \<lfloor>\<bar>r\<bar> * 10 ^ 6 + 1 / 2\<rfloor>"
proof -
  define n where "n = nat \<lfloor>\<bar>r\<bar> * 10 ^ 6 + 1 / 2\<rfloor>"
  define m where "m = (if length (decimal n) \<le> 6
                       then replicate (6 + 1 - length (decimal n)) (CHR ''0'') @ decimal n
                       else decimal n)"
  define k where "k = length m"
  have digits: "list_all is_digit m"
    using decimal_digits [of n] by (auto simp add: m_def is_digit_zero list_all_iff)
  have len: "7 \<le> k"
    by (simp add: k_def m_def)
  have val: "read_nat m = n"
    by (simp add: m_def read_nat_zeros read_nat_decimal)
  have a: "(if r < 0 then - r else r) = \<bar>r\<bar>" by simp
  have nb: "\<not> 10 ^ 21 \<le> (if r < 0 then - r else r)"
    unfolding a using assms by (simp only: not_le)
  have f6: "(6::nat) \<noteq> 0" by simp
  have out: "toFixed (Fin r) 6 = (if r < 0 then ''-'' else []) @ take (k - 6) m @ ''.'' @ drop (k - 6) m"
    unfolding k_def m_def n_def using toFixed_Fin_small [OF nb f6] unfolding Let_def a .
  have "take (k - 6) m \<noteq> []" using len by (auto simp add: k_def)
  moreover have "list_all is_digit (take (k - 6) m)" "list_all is_digit (drop (k - 6) m)"
    using digits by (auto simp add: list_all_iff dest: in_set_takeD in_set_dropD)
  moreover have "length (drop (k - 6) m) = 6" using len by (simp add: k_def)
  moreover have "read_nat (take (k - 6) m @ drop (k - 6) m) = n" using val by simp
  ultimately show ?thesis using out unfolding n_def by blast
qed

lemma fixed_decimal_intro:
  assumes "ip \<noteq> []" "list_all is_digit ip" "list_all is_digit fp" "length fp = f"
    and "sg = [] \<or> sg = ''-''"
  shows "fixed_decimal f (sg @ ip @ ''.'' @ fp)"
proof -
  obtain c t where ip: "ip = c # t" using assms(1) by (cases ip) auto
  have c: "is_digit c" using assms(2) ip by simp
  then have cm: "c \<noteq> CHR ''-''" using minus_not_digit by auto
  have u: "(case sg @ ip @ ''.'' @ fp of [] \<Rightarrow> [] | c # t \<Rightarrow> if c = CHR ''-'' then t else sg @ ip @ ''.'' @ fp)
           = ip @ ''.'' @ fp"
    using assms(5) cm by (auto simp add: ip)
  have tw: "takeWhile is_digit (ip @ ''.'' @ fp) = ip"
    using assms(2) by (simp add: takeWhile_append2 list_all_iff dot_not_digit)
  have dw: "dropWhile is_digit (ip @ ''.'' @ fp) = ''.'' @ fp"
    using assms(2) by (simp add: dropWhile_append2 list_all_iff dot_not_digit)
  show ?thesis
    unfolding fixed_decimal_def Let_def u tw dw using assms by simp
qed

lemma fixed_value_intro:
  assumes "ip \<noteq> []" "list_all is_digit ip" "sg = [] \<or> sg = ''-''"
  shows "fixed_value (sg @ ip @ ''.'' @ fp) =
     (if sg = [] then 1 else - 1) * (real (read_nat (ip @ fp)) / 10 ^ length fp)"
proof -
  obtain c t where ip: "ip = c # t" using assms(1) by (cases ip) auto
  have c: "is_digit c" using assms(2) ip by simp
  then have cm: "c \<noteq> CHR ''-''" using minus_not_digit by auto
  have tw: "takeWhile is_digit (ip @ ''.'' @ fp) = ip"
    using assms(2) by (simp add: takeWhile_append2 list_all_iff dot_not_digit)
  have dw: "dropWhile is_digit (ip @ ''.'' @ fp) = ''.'' @ fp"
    using assms(2) by (simp add: dropWhile_append2 list_all_iff dot_not_digit)
  have v: "real (read_nat ip) + real (read_nat fp) / 10 ^ length fp
           = real (read_nat (ip @ fp)) / 10 ^ length fp"
    by (simp add: read_nat_append add_divide_distrib)
  show ?thesis
  proof (cases "sg = []")
    case True
    then show ?thesis
      unfolding fixed_value_def Let_def using cm tw dw v by (simp add: ip)
  next
    case False
    then have sg: "sg = ''-''" using assms(3) by simp
    show ?thesis
      unfolding fixed_value_def Let_def sg using tw dw v by simp
  qed
qed

lemma round_half_up_close:
  fixes a c :: real
  assumes "0 \<le> a" and "0 < c"
  shows "\<bar>real (nat \<lfloor>a * c + 1 / 2\<rfloor>) / c - a\<bar> \<le> 1 / (2 * c)"
proof -
  define t where "t = a * c + 1 / 2"
  have t0: "0 \<le> t" using assms by (simp add: t_def)
  then have n: "real (nat \<lfloor>t\<rfloor>) = of_int \<lfloor>t\<rfloor>" by simp
  have "of_int \<lfloor>t\<rfloor> \<le> t" "t < of_int \<lfloor>t\<rfloor> + 1" by linarith+
  moreover have "a * c = t - 1 / 2" by (simp add: t_def)
  ultimately have d: "\<bar>real (nat \<lfloor>t\<rfloor>) - a * c\<bar> \<le> 1 / 2"
    using n by linarith
  have "real (nat \<lfloor>t\<rfloor>) / c - a = (real (nat \<lfloor>t\<rfloor>) - a * c) / c"
    using assms(2) by (simp add: diff_divide_distrib)
  then have "\<bar>real (nat \<lfloor>t\<rfloor>) / c - a\<bar> = \<bar>real (nat \<lfloor>t\<rfloor>) - a * c\<bar> / c"
    using assms(2) by simp
  also have "\<dots> \<le> (1 / 2) / c"
    using d assms(2) by (rule divide_right_mono [OF _ less_imp_le])
  finally show ?thesis by (simp add: t_def)
qed

lemma signed_close:
  fixes q r e :: real
  assumes "\<bar>q - \<bar>r\<bar>\<bar> \<le> e"
  shows "\<bar>(if r < 0 then - q else q) - r\<bar> \<le> e"
proof (cases "r < 0")
  case True
  then have "\<bar>q + r\<bar> \<le> e" using assms by simp
  moreover have "- q - r = - (q + r)" by simp
  then have "\<bar>- q - r\<bar> = \<bar>q + r\<bar>" by (simp only: abs_minus)
  ultimately show ?thesis using True by simp
next
  case False
  then show ?thesis using assms by simp
qed

lemma toFixed_format:
  assumes "\<bar>r\<bar> < 10 ^ 21"
  shows "fixed_decimal 6 (toFixed (Fin r) 6)"
    and "\<bar>fixed_value (toFixed (Fin r) 6) - r\<bar> \<le> 1 / (2 * 10 ^ 6)"
    and "\<forall>c \<in> set (toFixed (Fin r) 6). is_digit c \<or> c = CHR ''-'' \<or> c = CHR ''.''"
proof -
  from toFixed_small [OF assms] obtain ip fp where
    out: "toFixed (Fin r) 6 = (if r < 0 then ''-'' else []) @ ip @ ''.'' @ fp"
    and ip: "ip \<noteq> []" "list_all is_digit ip" and fp: "list_all is_digit fp" "length fp = 6"
    and val: "read_nat (ip @ fp) = nat \<lfloor>\<bar>r\<bar> * 10 ^ 6 + 1 / 2\<rfloor>"
    by blast
  show "fixed_decimal 6 (toFixed (Fin r) 6)"
    unfolding out by (rule fixed_decimal_intro) (use ip fp in auto)
  define q where "q = real (nat \<lfloor>\<bar>r\<bar> * 10 ^ 6 + 1 / 2\<rfloor>) / 10 ^ 6"
  have "fixed_value (toFixed (Fin r) 6)
        = (if (if r < 0 then ''-'' else []) = [] then 1 else - 1) * (real (read_nat (ip @ fp)) / 10 ^ length fp)"
    unfolding out by (rule fixed_value_intro) (use ip in auto)
  then have fv: "fixed_value (toFixed (Fin r) 6) = (if r < 0 then - q else q)"
    unfolding val fp(2) q_def by (cases "r < 0") simp_all
  have "\<bar>q - \<bar>r\<bar>\<bar> \<le> 1 / (2 * 10 ^ 6)"
    unfolding q_def by (rule round_half_up_close) simp_all
  then have "\<bar>(if r < 0 then - q else q) - r\<bar> \<le> 1 / (2 * 10 ^ 6)"
    by (rule signed_close)
  then show "\<bar>fixed_value (toFixed (Fin r) 6) - r\<bar> \<le> 1 / (2 * 10 ^ 6)"
    unfolding fv .
  show "\<forall>c \<in> set (toFixed (Fin r) 6). is_digit c \<or> c = CHR ''-'' \<or> c = CHR ''.''"
    using ip(2) fp(1) unfolding out by (auto simp add: list_all_iff split: if_splits)
qed


lemma foldl_append_concat:
  "foldl (\<lambda>acc p. acc @ g p) a ps = a @ concat (map g ps)"
  by (induction ps arbitrary: a) simp_all

lemma toFixed_shows_fixed:
  assumes "in_fixed_range v"
  shows "shows_fixed 6 v (toFixed v 6)"
    and "\<forall>c \<in> set (toFixed v 6). is_digit c \<or> c = CHR ''-'' \<or> c = CHR ''.''"
proof -
  from assms obtain r where v: "v = Fin r" and r: "\<bar>r\<bar> < 10 ^ 21"
    by (cases v) (simp_all add: in_fixed_range_def)
  show "shows_fixed 6 v (toFixed v 6)"
    unfolding v shows_fixed_def using toFixed_format(1,2) [OF r] by simp
  show "\<forall>c \<in> set (toFixed v 6). is_digit c \<or> c = CHR ''-'' \<or> c = CHR ''.''"
    unfolding v by (rule toFixed_format(3) [OF r])
qed

lemma decimal_small: "n < 10 \<Longrightarrow> decimal n = [digit_char n]"
  by (simp add: decimal.simps [of n])

lemma decimal_big: "\<not> n < 10 \<Longrightarrow> decimal n = decimal (n div 10) @ [digit_char (n mod 10)]"
  by (simp add: decimal.simps [of n])

lemma replicate_numeral: "replicate (numeral k) c = c # replicate (pred_numeral k) c"
  by (simp add: numeral_eq_Suc)

lemmas eval_fixed = toFixed_def toString_large_def decimal_small decimal_big digit_char_def Let_def
  replicate_numeral

lemma nl_not_digit: "\<not> is_digit (CHR 0x0A)"
  by (simp add: is_digit_def)

section \<open>Properties of generateCSV\<close>

lemma generateCSV_lines:
  "generateCSV ps =
     concat (map (\<lambda>l. l @ NL)
       (''X,Y,Z'' # map (\<lambda>p. toFixed (x p) 6 @ '','' @ toFixed (y p) 6 @ '',0.000000'') ps))"
  by (simp add: generateCSV_def foldl_append_concat comp_def)

text \<open>
  C7 (as stated): every line holds the x and the y of its point fixed to 6 fractional
  digits. From \<open>10^21\<close> upwards \<open>toFixed\<close> switches to the exponential notation of
  \<open>Number::toString\<close>, so the line of the point \<open>(10^21, 0)\<close> starts with \<open>1e+21\<close>.
\<close>

theorem generateCSV_large_counterexample:
  "generateCSV [\<lparr> x = Fin (10 ^ 21), y = Fin 0 \<rparr>]
     = ''X,Y,Z'' @ NL @ ''1e+21,0.000000,0.000000'' @ NL
   \<and> \<not> fixed_decimal 6 (toFixed (Fin (10 ^ 21)) 6)"
  by (simp add: generateCSV_def eval_fixed fixed_decimal_def is_digit_def)


text \<open>
  C7 (amended). For every point sequence, the empty one included, whose coordinates are
  finite and of magnitude below \<open>10^21\<close>, \<open>generateCSV\<close> returns the header line \<open>X,Y,Z\<close>
  followed by one line for each point, in input order, every line ended by a newline and
  holding no other newline: the x and the y of the point, each fixed to 6 fractional digits
  (the nearest such decimal), and the constant \<open>0.000000\<close>, separated by commas. No line is
  added after the last point.
\<close>

theorem generateCSV_table:
  assumes "\<forall>p \<in> set ps. in_fixed_range (x p) \<and> in_fixed_range (y p)"
  shows "generateCSV ps =
     concat (map (\<lambda>l. l @ NL)
       (''X,Y,Z'' # map (\<lambda>p. toFixed (x p) 6 @ '','' @ toFixed (y p) 6 @ '',0.000000'') ps))
   \<and> (\<forall>p \<in> set ps. shows_fixed 6 (x p) (toFixed (x p) 6) \<and> shows_fixed 6 (y p) (toFixed (y p) 6)
         \<and> CHR 0x0A \<notin> set (toFixed (x p) 6 @ '','' @ toFixed (y p) 6 @ '',0.000000''))"
proof (intro conjI ballI)
  show "generateCSV ps =
     concat (map (\<lambda>l. l @ NL)
       (''X,Y,Z'' # map (\<lambda>p. toFixed (x p) 6 @ '','' @ toFixed (y p) 6 @ '',0.000000'') ps))"
    by (rule generateCSV_lines)
next
  fix p assume "p \<in> set ps"
  with assms have rx: "in_fixed_range (x p)" and ry: "in_fixed_range (y p)" by auto
  show "shows_fixed 6 (x p) (toFixed (x p) 6)" by (rule toFixed_shows_fixed(1) [OF rx])
  show "shows_fixed 6 (y p) (toFixed (y p) 6)" by (rule toFixed_shows_fixed(1) [OF ry])
  have "CHR 0x0A \<notin> set (toFixed (x p) 6)" "CHR 0x0A \<notin> set (toFixed (y p) 6)"
    using toFixed_shows_fixed(2) [OF rx] toFixed_shows_fixed(2) [OF ry] nl_not_digit by auto
  then show "CHR 0x0A \<notin> set (toFixed (x p) 6 @ '','' @ toFixed (y p) 6 @ '',0.000000'')"
    by simp
qed

theorem generateCSV_table_witness:
  "generateCSV [\<lparr> x = Fin 100, y = Fin (- 1 / 20) \<rparr>, \<lparr> x = Fin (1 / 3), y = Fin 0 \<rparr>]
     = ''X,Y,Z'' @ NL @ ''100.000000,-0.050000,0.000000'' @ NL @ ''0.333333,0.000000,0.000000'' @ NL
   \<and> shows_fixed 6 (Fin (1 / 3)) ''0.333333''
   \<and> generateCSV [] = ''X,Y,Z'' @ NL"
  using generateCSV_table [of "[\<lparr> x = Fin 100, y = Fin (- 1 / 20) \<rparr>, \<lparr> x = Fin (1 / 3), y = Fin 0 \<rparr>]"]
    generateCSV_table [of "[]"]
  by (simp add: in_fixed_range_def eval_fixed)

section \<open>Properties of generateDXF\<close>

lemma group_pairs_Nil: "group_pairs [] = []"
  by (simp add: group_pairs_def)

lemma group_pairs_Cons: "group_pairs ((c, v) # gs) = c @ NL @ v @ NL @ group_pairs gs"
  by (simp add: group_pairs_def)

lemma group_pairs_append: "group_pairs (a @ b) = group_pairs a @ group_pairs b"
  by (simp add: group_pairs_def)

lemma group_pairs_concat:
  "group_pairs (concat (map g ps)) = concat (map (\<lambda>p. group_pairs (g p)) ps)"
  by (induction ps) (simp_all add: group_pairs_Nil group_pairs_append)

lemma generateDXF_pairs:
  "generateDXF ps =
     group_pairs ([(''0'', ''SECTION''), (''2'', ''ENTITIES''),
                   (''0'', ''POLYLINE''), (''8'', ''0''), (''66'', ''1'')]
       @ concat (map (\<lambda>p. [(''0'', ''VERTEX''), (''8'', ''0''), (''10'', toFixed (x p) 6),
                              (''20'', toFixed (y p) 6), (''30'', ''0.0'')]) ps)
       @ [(''0'', ''SEQEND''), (''0'', ''ENDSEC''), (''0'', ''EOF'')])"
  by (simp add: generateDXF_def Let_def foldl_append_concat group_pairs_append group_pairs_concat
      group_pairs_Cons group_pairs_Nil)

text \<open>
  C8 (as stated): every VERTEX record carries x and y formatted to 6 fractional digits.
  The point \<open>(10^21, 0)\<close> is written with the value \<open>1e+21\<close> under group code 10; and the
  value under group code 30 is the text \<open>0.0\<close>, which has one fractional digit.
\<close>

theorem generateDXF_large_counterexample:
  "generateDXF [\<lparr> x = Fin (10 ^ 21), y = Fin 0 \<rparr>]
     = group_pairs [(''0'', ''SECTION''), (''2'', ''ENTITIES''),
                    (''0'', ''POLYLINE''), (''8'', ''0''), (''66'', ''1''),
                    (''0'', ''VERTEX''), (''8'', ''0''), (''10'', ''1e+21''),
                    (''20'', ''0.000000''), (''30'', ''0.0''),
                    (''0'', ''SEQEND''), (''0'', ''ENDSEC''), (''0'', ''EOF'')]
   \<and> \<not> fixed_decimal 6 ''1e+21'' \<and> \<not> fixed_decimal 6 ''0.0''"
  by (simp add: generateDXF_def group_pairs_def eval_fixed fixed_decimal_def is_digit_def)

text \<open>
  C8 (amended). For every point sequence, the empty one included, whose coordinates are
  finite and of magnitude below \<open>10^21\<close>, \<open>generateDXF\<close> emits exactly these group-code/value
  pairs, each code and each value on a line of its own: \<open>0 SECTION\<close>, \<open>2 ENTITIES\<close>; one
  \<open>0 POLYLINE\<close> on layer \<open>8 = 0\<close> with the flag \<open>66 = 1\<close>; for each point, in input order, a
  record \<open>0 VERTEX\<close>, \<open>8 = 0\<close>, \<open>10\<close> = x and \<open>20\<close> = y fixed to 6 fractional digits, and
  \<open>30\<close> = the text \<open>0.0\<close>; then \<open>0 SEQEND\<close>, \<open>0 ENDSEC\<close> and \<open>0 EOF\<close>. No point is added
  and none is removed.
\<close>

theorem generateDXF_document:
  assumes "\<forall>p \<in> set ps. in_fixed_range (x p) \<and> in_fixed_range (y p)"
  shows "generateDXF ps =
     group_pairs ([(''0'', ''SECTION''), (''2'', ''ENTITIES''),
                   (''0'', ''POLYLINE''), (''8'', ''0''), (''66'', ''1'')]
       @ concat (map (\<lambda>p. [(''0'', ''VERTEX''), (''8'', ''0''), (''10'', toFixed (x p) 6),
                              (''20'', toFixed (y p) 6), (''30'', ''0.0'')]) ps)
       @ [(''0'', ''SEQEND''), (''0'', ''ENDSEC''), (''0'', ''EOF'')])
   \<and> (\<forall>p \<in> set ps. shows_fixed 6 (x p) (toFixed (x p) 6) \<and> shows_fixed 6 (y p) (toFixed (y p) 6)
         \<and> CHR 0x0A \<notin> set (toFixed (x p) 6) \<and> CHR 0x0A \<notin> set (toFixed (y p) 6))"
proof (intro conjI ballI)
  show "generateDXF ps =
     group_pairs ([(''0'', ''SECTION''), (''2'', ''ENTITIES''),
                   (''0'', ''POLYLINE''), (''8'', ''0''), (''66'', ''1'')]
       @ concat (map (\<lambda>p. [(''0'', ''VERTEX''), (''8'', ''0''), (''10'', toFixed (x p) 6),
                              (''20'', toFixed (y p) 6), (''30'', ''0.0'')]) ps)
       @ [(''0'', ''SEQEND''), (''0'', ''ENDSEC''), (''0'', ''EOF'')])"
    by (rule generateDXF_pairs)
next
  fix p assume "p \<in> set ps"
  with assms have rx: "in_fixed_range (x p)" and ry: "in_fixed_range (y p)" by auto
  show "shows_fixed 6 (x p) (toFixed (x p) 6)" by (rule toFixed_shows_fixed(1) [OF rx])
  show "shows_fixed 6 (y p) (toFixed (y p) 6)" by (rule toFixed_shows_fixed(1) [OF ry])
  show "CHR 0x0A \<notin> set (toFixed (x p) 6)" "CHR 0x0A \<notin> set (toFixed (y p) 6)"
    using toFixed_shows_fixed(2) [OF rx] toFixed_shows_fixed(2) [OF ry] nl_not_digit by auto
qed

theorem generateDXF_document_witness:
  "generateDXF [\<lparr> x = Fin 100, y = Fin (- 1 / 20) \<rparr>]
     = ''0'' @ NL @ ''SECTION'' @ NL @ ''2'' @ NL @ ''ENTITIES'' @ NL
       @ ''0'' @ NL @ ''POLYLINE'' @ NL @ ''8'' @ NL @ ''0'' @ NL @ ''66'' @ NL @ ''1'' @ NL
       @ ''0'' @ NL @ ''VERTEX'' @ NL @ ''8'' @ NL @ ''0'' @ NL
       @ ''10'' @ NL @ ''100.000000'' @ NL @ ''20'' @ NL @ ''-0.050000'' @ NL @ ''30'' @ NL @ ''0.0'' @ NL
       @ ''0'' @ NL @ ''SEQEND'' @ NL @ ''0'' @ NL @ ''ENDSEC'' @ NL @ ''0'' @ NL @ ''EOF'' @ NL
   \<and> shows_fixed 6 (Fin 100) ''100.000000''
   \<and> generateDXF [] = ''0'' @ NL @ ''SECTION'' @ NL @ ''2'' @ NL @ ''ENTITIES'' @ NL
       @ ''0'' @ NL @ ''POLYLINE'' @ NL @ ''8'' @ NL @ ''0'' @ NL @ ''66'' @ NL @ ''1'' @ NL
       @ ''0'' @ NL @ ''SEQEND'' @ NL @ ''0'' @ NL @ ''ENDSEC'' @ NL @ ''0'' @ NL @ ''EOF'' @ NL"
  using generateDXF_document [of "[\<lparr> x = Fin 100, y = Fin (- 1 / 20) \<rparr>]"]
    generateDXF_document [of "[]"]
  by (simp add: in_fixed_range_def eval_fixed group_pairs_def)


section \<open>Facts about parseDatFile\<close>





lemma scan_points:
  "fst (scan i ls (pts, nm, h)) = pts @ map coordinate_point (filter recognized ls)"
proof (induction ls arbitrary: i pts nm h)
  case Nil
  show ?case by simp
next
  case (Cons l ls)
  show ?case
  proof (cases "regex_match coordinateRegex l")
    case None
    then show ?thesis using Cons.IH by (simp add: recognized_def)
  next
    case (Some m)
    then show ?thesis using Cons.IH by (simp add: recognized_def coordinate_point_def)
  qed
qed






lemma js_split_Nil: "js_split [] sep = [Nil]"
  by (simp add: js_split.simps [of "[]"])

lemma js_split_Cons:
  "js_split (c # s) sep =
     (if c = sep then [] # js_split s sep
      else (case js_split s sep of [] \<Rightarrow> [c # Nil] | l # ls \<Rightarrow> (c # l) # ls))"
proof (cases "c = sep")
  case True
  show ?thesis unfolding True by (simp add: js_split.simps [of "sep # s" sep])
next
  case False
  show ?thesis
  proof (cases "dropWhile (\<lambda>c. c \<noteq> sep) s")
    case Nil
    have 1: "js_split s sep = [s]"
      by (subst js_split.simps [of s sep]) (simp only: Nil list.case)
    have 2: "dropWhile (\<lambda>c. c \<noteq> sep) (c # s) = []"
      using Nil False by simp
    have 3: "js_split (c # s) sep = [c # s]"
      by (subst js_split.simps [of "c # s" sep]) (simp only: 2 list.case)
    show ?thesis using False by (simp add: 1 3)
  next
    case (Cons d rest)
    have 1: "js_split s sep = takeWhile (\<lambda>c. c \<noteq> sep) s # js_split rest sep"
      by (subst js_split.simps [of s sep]) (simp only: Cons list.case)
    have 2: "dropWhile (\<lambda>c. c \<noteq> sep) (c # s) = d # rest"
      using Cons False by simp
    have 3: "js_split (c # s) sep = takeWhile (\<lambda>c. c \<noteq> sep) (c # s) # js_split rest sep"
      by (subst js_split.simps [of "c # s" sep]) (simp only: 2 list.case)
    show ?thesis using False by (simp add: 1 3)
  qed
qed

lemmas eval_text = js_split_Nil js_split_Cons content_lines_def trim_def is_space_def is_digit_def
lemmas eval_regex = regex_match_def coordinateRegex_def numberRegex_def run.simps
lemmas eval_float = parseFloat_def exponent_def scale10_def read_nat_def digit_val_def Let_def


lemma map_x_finite: "map x (map finite_point rs) = map Fin (map fst rs)"
  and map_y_finite: "map y (map finite_point rs) = map Fin (map snd rs)"
  by (simp_all add: finite_point_def comp_def)



















section \<open>The matcher and the language\<close>

lemma kleene_decomp:
  assumes "p \<in> kleene L" and "p \<noteq> []"
  shows "\<exists>a b. p = a @ b \<and> a \<in> L \<and> a \<noteq> [] \<and> b \<in> kleene L"
  using assms
proof (induction rule: kleene.induct)
  case empty
  then show ?case by simp
next
  case (more a b)
  show ?case
  proof (cases "a = []")
    case True
    with more show ?thesis by simp
  next
    case False
    with more.hyps show ?thesis by blast
  qed
qed

lemma ends_Chr: "ends (Chr c) (s, caps)"
  by (cases s) (auto simp add: ends_def run.simps(1))

lemma run_Seq_set: "set (run (Seq r1 r2) st) = (\<Union>m \<in> set (run r1 st). set (run r2 m))"
  by (simp add: run.simps(2))

lemma ends_Seq:
  assumes 1: "ends r1 st" and 2: "\<And>m. m \<in> set (run r1 st) \<Longrightarrow> ends r2 m"
  shows "ends (Seq r1 r2) st"
  unfolding ends_def
proof (intro set_eqI iffI)
  fix t assume "t \<in> fst ` set (run (Seq r1 r2) st)"
  then obtain m where m: "m \<in> set (run r1 st)" and t: "t \<in> fst ` set (run r2 m)"
    unfolding run_Seq_set by blast
  from 2 [OF m] t obtain p2 where p2: "p2 \<in> lang r2" "fst m = p2 @ t"
    unfolding ends_def by blast
  from m have "fst m \<in> fst ` set (run r1 st)" by (rule imageI)
  with 1 obtain p1 where p1: "p1 \<in> lang r1" "fst st = p1 @ fst m"
    unfolding ends_def by blast
  have "p1 @ p2 \<in> lang (Seq r1 r2)" using p1(1) p2(1) by (simp, blast)
  moreover have "fst st = (p1 @ p2) @ t" using p1(2) p2(2) by simp
  ultimately show "t \<in> {s'. \<exists>p. p \<in> lang (Seq r1 r2) \<and> fst st = p @ s'}" by blast
next
  fix t assume "t \<in> {s'. \<exists>p. p \<in> lang (Seq r1 r2) \<and> fst st = p @ s'}"
  then obtain p where "p \<in> lang (Seq r1 r2)" and st: "fst st = p @ t" by blast
  then obtain p1 p2 where p: "p1 \<in> lang r1" "p2 \<in> lang r2" "p = p1 @ p2"
    by (simp, blast)
  have "fst st = p1 @ (p2 @ t)" using st p(3) by simp
  with p(1) have "p2 @ t \<in> {s'. \<exists>p. p \<in> lang r1 \<and> fst st = p @ s'}" by blast
  then have "p2 @ t \<in> fst ` set (run r1 st)" using 1 unfolding ends_def by simp
  then obtain m where m: "m \<in> set (run r1 st)" "fst m = p2 @ t" by (elim imageE) simp
  from p(2) m(2) have "t \<in> {s'. \<exists>p. p \<in> lang r2 \<and> fst m = p @ s'}" by blast
  then have "t \<in> fst ` set (run r2 m)" using 2 [OF m(1)] unfolding ends_def by simp
  with m(1) show "t \<in> fst ` set (run (Seq r1 r2) st)" unfolding run_Seq_set by blast
qed

lemma ends_Opt:
  assumes "ends r st"
  shows "ends (Opt r) st"
proof -
  have "fst ` set (run (Opt r) st) = insert (fst st) (fst ` set (run r st))"
    by (simp add: run.simps(3) image_Un)
  also have "\<dots> = insert (fst st) {s'. \<exists>p. p \<in> lang r \<and> fst st = p @ s'}"
    using assms unfolding ends_def by simp
  also have "\<dots> = {s'. \<exists>p. p \<in> lang (Opt r) \<and> fst st = p @ s'}"
    by auto
  finally show ?thesis unfolding ends_def .
qed

lemma run_Star_set:
  "set (run (Star r) (s, caps)) =
     insert (s, caps)
       (\<Union>m \<in> {m \<in> set (run r (s, caps)). length (fst m) < length s}. set (run (Star r) m))"
  by (subst run.simps(4)) (auto split: if_splits)

lemma ends_Star:
  assumes 1: "ends r (s, caps)"
    and 2: "\<And>m. m \<in> set (run r (s, caps)) \<Longrightarrow> length (fst m) < length s \<Longrightarrow> ends (Star r) m"
  shows "ends (Star r) (s, caps)"
  unfolding ends_def
proof (intro set_eqI iffI)
  fix t assume "t \<in> fst ` set (run (Star r) (s, caps))"
  then consider "t = s"
    | m where "m \<in> set (run r (s, caps))" "length (fst m) < length s"
        "t \<in> fst ` set (run (Star r) m)"
    unfolding run_Star_set by (simp, blast)
  then show "t \<in> {s'. \<exists>p. p \<in> lang (Star r) \<and> fst (s, caps) = p @ s'}"
  proof cases
    case 1
    have "[] \<in> lang (Star r)" by (simp add: kleene.empty)
    moreover have "fst (s, caps) = [] @ t" using 1 by simp
    ultimately show ?thesis by blast
  next
    case 2
    from assms(2) [OF 2(1,2)] 2(3) obtain p2 where p2: "p2 \<in> lang (Star r)" "fst m = p2 @ t"
      unfolding ends_def by blast
    from 2(1) have "fst m \<in> fst ` set (run r (s, caps))" by (rule imageI)
    with assms(1) obtain p1 where p1: "p1 \<in> lang r" "s = p1 @ fst m"
      unfolding ends_def by (simp, blast)
    have "p1 @ p2 \<in> lang (Star r)" using p1(1) p2(1) by (simp add: kleene.more)
    moreover have "fst (s, caps) = (p1 @ p2) @ t" using p1(2) p2(2) by simp
    ultimately show ?thesis by blast
  qed
next
  fix t assume "t \<in> {s'. \<exists>p. p \<in> lang (Star r) \<and> fst (s, caps) = p @ s'}"
  then obtain p where p: "p \<in> kleene (lang r)" "s = p @ t" by (simp, blast)
  show "t \<in> fst ` set (run (Star r) (s, caps))"
  proof (cases "p = []")
    case True
    then have "t = s" using p(2) by simp
    then have "(t, caps) \<in> set (run (Star r) (s, caps))" unfolding run_Star_set by simp
    then show ?thesis by (rule image_eqI [rotated]) simp
  next
    case False
    from kleene_decomp [OF p(1) False] obtain a b where
      ab: "p = a @ b" "a \<in> lang r" "a \<noteq> []" "b \<in> kleene (lang r)" by blast
    have "fst (s, caps) = a @ (b @ t)" using ab(1) p(2) by simp
    with ab(2) have "b @ t \<in> {s'. \<exists>p. p \<in> lang r \<and> fst (s, caps) = p @ s'}" by blast
    then have "b @ t \<in> fst ` set (run r (s, caps))" using assms(1) unfolding ends_def by simp
    then obtain m where m: "m \<in> set (run r (s, caps))" "fst m = b @ t" by (elim imageE) simp
    have len: "length (fst m) < length s" using m(2) ab(1,3) p(2) by simp
    have "b \<in> lang (Star r)" using ab(4) by simp
    with m(2) have "t \<in> {s'. \<exists>q. q \<in> lang (Star r) \<and> fst m = q @ s'}" by blast
    then have "t \<in> fst ` set (run (Star r) m)" using assms(2) [OF m(1) len] unfolding ends_def by simp
    then obtain n where n: "n \<in> set (run (Star r) m)" "t = fst n" by (elim imageE) simp
    have "n \<in> set (run (Star r) (s, caps))" unfolding run_Star_set using m(1) len n(1) by blast
    then show ?thesis using n(2) by (simp add: image_iff) blast
  qed
qed

lemma ends_Group:
  assumes "ends r (s, caps)"
  shows "ends (Group r) (s, caps)"
proof -
  have "fst ` set (run (Group r) (s, caps)) = fst ` set (run r (s, caps))"
    by (simp add: run.simps(5) image_image case_prod_unfold)
  with assms show ?thesis unfolding ends_def by simp
qed

lemma run_ends: "ends r st"
proof (induction r st rule: run.induct)
  case (1 c s caps)
  show ?case by (rule ends_Chr)
next
  case (2 r1 r2 st)
  show ?case by (rule ends_Seq) (use 2 in blast)+
next
  case (3 r st)
  then show ?case by (rule ends_Opt)
next
  case (4 r s caps)
  show ?case
  proof (rule ends_Star)
    show "ends r (s, caps)" by (rule "4.IH"(1))
  next
    fix m assume m: "m \<in> set (run r (s, caps))" "length (fst m) < length s"
    obtain s' caps' where mm: "m = (s', caps')" by (cases m)
    show "ends (Star r) m"
      unfolding mm by (rule "4.IH"(2) [OF m(1) [unfolded mm] refl]) (use m(2) mm in simp)
  qed
next
  case (5 r s caps)
  then show ?case by (rule ends_Group)
qed

lemma regex_match_lang: "regex_match r s \<noteq> None \<longleftrightarrow> s \<in> lang r"
proof -
  have "regex_match r s \<noteq> None \<longleftrightarrow> filter (\<lambda>(rest, caps). rest = []) (run r (s, [])) \<noteq> []"
    by (simp add: regex_match_def split: list.splits prod.splits)
  also have "\<dots> \<longleftrightarrow> [] \<in> fst ` set (run r (s, []))"
    by (force simp add: filter_empty_conv image_iff)
  also have "\<dots> \<longleftrightarrow> s \<in> lang r"
    using run_ends [of r "(s, [])"] unfolding ends_def by simp
  finally show ?thesis .
qed

lemma in_class_Digit: "in_class Digit = is_digit"
  by (rule ext) simp

lemma in_class_Space: "in_class Space = is_space"
  by (rule ext) simp

lemma kleene_class: "w \<in> kleene (lang (Chr c)) \<longleftrightarrow> list_all (in_class c) w"
proof
  assume "w \<in> kleene (lang (Chr c))"
  then show "list_all (in_class c) w"
    by (induction rule: kleene.induct) auto
next
  assume "list_all (in_class c) w"
  then show "w \<in> kleene (lang (Chr c))"
  proof (induction w)
    case Nil
    show ?case by (rule kleene.empty)
  next
    case (Cons a w)
    then have "[a] \<in> lang (Chr c)" "w \<in> kleene (lang (Chr c))" by simp_all
    then have "[a] @ w \<in> kleene (lang (Chr c))" by (rule kleene.more)
    then show ?case by simp
  qed
qed

lemma lang_Seq_iff:
  "w \<in> lang (Seq r1 r2) \<longleftrightarrow> (\<exists>a b. w = a @ b \<and> a \<in> lang r1 \<and> b \<in> lang r2)"
  by auto

lemma lang_SeqI: "a \<in> lang r1 \<Longrightarrow> b \<in> lang r2 \<Longrightarrow> a @ b \<in> lang (Seq r1 r2)"
  unfolding lang_Seq_iff by blast

lemma lang_star_class: "w \<in> lang (Star (Chr c)) \<longleftrightarrow> list_all (in_class c) w"
  using kleene_class [of w c] by simp

lemma lang_plus_class: "w \<in> lang (Plus (Chr c)) \<longleftrightarrow> w \<noteq> [] \<and> list_all (in_class c) w"
proof
  assume "w \<in> lang (Plus (Chr c))"
  then obtain a b where "w = a @ b" "a \<in> lang (Chr c)" "b \<in> lang (Star (Chr c))"
    unfolding lang_Seq_iff by blast
  then show "w \<noteq> [] \<and> list_all (in_class c) w"
    unfolding lang_star_class by auto
next
  assume w: "w \<noteq> [] \<and> list_all (in_class c) w"
  then obtain a b where ab: "w = a # b" by (cases w) auto
  with w have "[a] \<in> lang (Chr c)" "b \<in> lang (Star (Chr c))"
    unfolding lang_star_class by simp_all
  moreover have "w = [a] @ b" using ab by simp
  ultimately show "w \<in> lang (Plus (Chr c))" unfolding lang_Seq_iff by blast
qed

lemma lang_sign: "w \<in> lang (Opt (Chr (OneOf ''+-''))) \<longleftrightarrow> sign_part w"
  by (auto simp add: sign_part_def)

lemma lang_point: "w \<in> lang (Opt (Chr (OneOf ''.''))) \<longleftrightarrow> (w = [] \<or> w = ''.'')"
  by auto

lemma lang_exponent:
  "w \<in> lang (Opt (Seq (Chr (OneOf ''eE'')) (Seq (Opt (Chr (OneOf ''+-''))) (Plus (Chr Digit)))))
     \<longleftrightarrow> exponent_part w"
proof -
  have inner: "w \<in> lang (Seq (Chr (OneOf ''eE'')) (Seq (Opt (Chr (OneOf ''+-''))) (Plus (Chr Digit))))
       \<longleftrightarrow> (\<exists>e sg ds. w = e # sg @ ds \<and> (e = CHR ''e'' \<or> e = CHR ''E'') \<and> sign_part sg
               \<and> ds \<noteq> [] \<and> list_all is_digit ds)" (is "?L \<longleftrightarrow> ?R")
  proof
    assume ?L
    then obtain a b where ab: "w = a @ b" "a \<in> lang (Chr (OneOf ''eE''))"
        "b \<in> lang (Seq (Opt (Chr (OneOf ''+-''))) (Plus (Chr Digit)))"
      unfolding lang_Seq_iff [of w] by blast
    from ab(3) obtain sg ds where sd: "b = sg @ ds" "sg \<in> lang (Opt (Chr (OneOf ''+-'')))"
        "ds \<in> lang (Plus (Chr Digit))"
      unfolding lang_Seq_iff [of b] by blast
    from ab(2) obtain e where e: "a = [e]" "e = CHR ''e'' \<or> e = CHR ''E''" by auto
    have "w = e # sg @ ds" using ab(1) sd(1) e(1) by simp
    moreover have "sign_part sg" using sd(2) unfolding lang_sign .
    moreover have "ds \<noteq> [] \<and> list_all is_digit ds" using sd(3) unfolding lang_plus_class in_class_Digit .
    ultimately show ?R using e(2) by blast
  next
    assume ?R
    then obtain e sg ds where r: "w = e # sg @ ds" "e = CHR ''e'' \<or> e = CHR ''E''" "sign_part sg"
        "ds \<noteq> []" "list_all is_digit ds" by blast
    have 1: "[e] \<in> lang (Chr (OneOf ''eE''))" using r(2) by auto
    have 2: "sg \<in> lang (Opt (Chr (OneOf ''+-'')))" using r(3) unfolding lang_sign .
    have 3: "ds \<in> lang (Plus (Chr Digit))" using r(4,5) unfolding lang_plus_class in_class_Digit by simp
    have "[e] @ (sg @ ds) \<in> lang (Seq (Chr (OneOf ''eE'')) (Seq (Opt (Chr (OneOf ''+-''))) (Plus (Chr Digit))))"
      by (intro lang_SeqI 1 2 3)
    then show ?L using r(1) by simp
  qed
  show ?thesis unfolding exponent_part_def lang.simps(3) insert_iff inner by (rule refl)
qed

lemma lang_number: "w \<in> lang numberRegex \<longleftrightarrow> js_number w"
proof
  assume "w \<in> lang numberRegex"
  then obtain sg r1 where 1: "w = sg @ r1" "sg \<in> lang (Opt (Chr (OneOf ''+-'')))"
    and "r1 \<in> lang (Seq (Star (Chr Digit)) (Seq (Opt (Chr (OneOf ''.''))) (Seq (Plus (Chr Digit))
          (Opt (Seq (Chr (OneOf ''eE'')) (Seq (Opt (Chr (OneOf ''+-''))) (Plus (Chr Digit))))))))"
    unfolding numberRegex_def lang_Seq_iff [of w] by blast
  then obtain ip r2 where 2: "r1 = ip @ r2" "ip \<in> lang (Star (Chr Digit))"
    and "r2 \<in> lang (Seq (Opt (Chr (OneOf ''.''))) (Seq (Plus (Chr Digit))
          (Opt (Seq (Chr (OneOf ''eE'')) (Seq (Opt (Chr (OneOf ''+-''))) (Plus (Chr Digit)))))))"
    unfolding lang_Seq_iff [of r1] by blast
  then obtain pt r3 where 3: "r2 = pt @ r3" "pt \<in> lang (Opt (Chr (OneOf ''.'')))"
    and "r3 \<in> lang (Seq (Plus (Chr Digit))
          (Opt (Seq (Chr (OneOf ''eE'')) (Seq (Opt (Chr (OneOf ''+-''))) (Plus (Chr Digit))))))"
    unfolding lang_Seq_iff [of r2] by blast
  then obtain fp ex where 4: "r3 = fp @ ex" "fp \<in> lang (Plus (Chr Digit))"
    and 5: "ex \<in> lang (Opt (Seq (Chr (OneOf ''eE'')) (Seq (Opt (Chr (OneOf ''+-''))) (Plus (Chr Digit)))))"
    unfolding lang_Seq_iff [of r3] by blast
  have "w = sg @ ip @ pt @ fp @ ex" using 1(1) 2(1) 3(1) 4(1) by simp
  moreover have "sign_part sg" using 1(2) unfolding lang_sign .
  moreover have "list_all is_digit ip" using 2(2) unfolding lang_star_class in_class_Digit .
  moreover have "pt = [] \<or> pt = ''.''" using 3(2) unfolding lang_point .
  moreover have "fp \<noteq> [] \<and> list_all is_digit fp" using 4(2) unfolding lang_plus_class in_class_Digit .
  moreover have "exponent_part ex" using 5 unfolding lang_exponent .
  ultimately show "js_number w" unfolding js_number_def by blast
next
  assume "js_number w"
  then obtain sg ip pt fp ex where w: "w = sg @ ip @ pt @ fp @ ex" and p: "sign_part sg"
      "list_all is_digit ip" "pt = [] \<or> pt = ''.''" "fp \<noteq> []" "list_all is_digit fp" "exponent_part ex"
    unfolding js_number_def by blast
  have 1: "sg \<in> lang (Opt (Chr (OneOf ''+-'')))" using p(1) unfolding lang_sign .
  have 2: "ip \<in> lang (Star (Chr Digit))" using p(2) unfolding lang_star_class in_class_Digit .
  have 3: "pt \<in> lang (Opt (Chr (OneOf ''.'')))" using p(3) unfolding lang_point .
  have 4: "fp \<in> lang (Plus (Chr Digit))" using p(4,5) unfolding lang_plus_class in_class_Digit by simp
  have 5: "ex \<in> lang (Opt (Seq (Chr (OneOf ''eE'')) (Seq (Opt (Chr (OneOf ''+-''))) (Plus (Chr Digit)))))"
    using p(6) unfolding lang_exponent .
  show "w \<in> lang numberRegex"
    unfolding numberRegex_def w by (intro lang_SeqI 1 2 3 4 5)
qed

lemma lang_coordinate:
  "w \<in> lang coordinateRegex \<longleftrightarrow>
     (\<exists>w0 a ws b w2. w = w0 @ a @ ws @ b @ w2 \<and> list_all is_space w0 \<and> js_number a
        \<and> ws \<noteq> [] \<and> list_all is_space ws \<and> js_number b \<and> list_all is_space w2)"
proof
  assume "w \<in> lang coordinateRegex"
  then obtain w0 r1 where 1: "w = w0 @ r1" "w0 \<in> lang (Star (Chr Space))"
    and "r1 \<in> lang (Seq (Group numberRegex) (Seq (Plus (Chr Space)) (Seq (Group numberRegex) (Star (Chr Space)))))"
    unfolding coordinateRegex_def lang_Seq_iff [of w] by blast
  then obtain a r2 where 2: "r1 = a @ r2" "a \<in> lang (Group numberRegex)"
    and "r2 \<in> lang (Seq (Plus (Chr Space)) (Seq (Group numberRegex) (Star (Chr Space))))"
    unfolding lang_Seq_iff [of r1] by blast
  then obtain ws r3 where 3: "r2 = ws @ r3" "ws \<in> lang (Plus (Chr Space))"
    and "r3 \<in> lang (Seq (Group numberRegex) (Star (Chr Space)))"
    unfolding lang_Seq_iff [of r2] by blast
  then obtain b w2 where 4: "r3 = b @ w2" "b \<in> lang (Group numberRegex)" "w2 \<in> lang (Star (Chr Space))"
    unfolding lang_Seq_iff [of r3] by blast
  have "w = w0 @ a @ ws @ b @ w2" using 1(1) 2(1) 3(1) 4(1) by simp
  moreover have "list_all is_space w0" "list_all is_space w2"
    using 1(2) 4(3) unfolding lang_star_class in_class_Space by simp_all
  moreover have "js_number a" "js_number b" using 2(2) 4(2) lang_number by simp_all
  moreover have "ws \<noteq> [] \<and> list_all is_space ws" using 3(2) unfolding lang_plus_class in_class_Space .
  ultimately show "\<exists>w0 a ws b w2. w = w0 @ a @ ws @ b @ w2 \<and> list_all is_space w0 \<and> js_number a
        \<and> ws \<noteq> [] \<and> list_all is_space ws \<and> js_number b \<and> list_all is_space w2" by blast
next
  assume "\<exists>w0 a ws b w2. w = w0 @ a @ ws @ b @ w2 \<and> list_all is_space w0 \<and> js_number a
        \<and> ws \<noteq> [] \<and> list_all is_space ws \<and> js_number b \<and> list_all is_space w2"
  then obtain w0 a ws b w2 where w: "w = w0 @ a @ ws @ b @ w2" and p: "list_all is_space w0" "js_number a"
      "ws \<noteq> []" "list_all is_space ws" "js_number b" "list_all is_space w2" by blast
  have 1: "w0 \<in> lang (Star (Chr Space))" and 5: "w2 \<in> lang (Star (Chr Space))"
    using p(1,6) unfolding lang_star_class in_class_Space by simp_all
  have 2: "a \<in> lang (Group numberRegex)" and 4: "b \<in> lang (Group numberRegex)"
    using p(2,5) lang_number by simp_all
  have 3: "ws \<in> lang (Plus (Chr Space))" using p(3,4) unfolding lang_plus_class in_class_Space by simp
  show "w \<in> lang coordinateRegex"
    unfolding coordinateRegex_def w by (intro lang_SeqI 1 2 3 4 5)
qed

section \<open>Recognized lines\<close>

lemma last_dropWhile: "dropWhile P xs \<noteq> [] \<Longrightarrow> last (dropWhile P xs) = last xs"
  by (induction xs) (auto split: if_splits)

lemma trim_edges:
  assumes "trim s \<noteq> []"
  shows "\<not> is_space (hd (trim s))" and "\<not> is_space (last (trim s))"
proof -
  define u where "u = dropWhile is_space s"
  define v where "v = dropWhile is_space (rev u)"
  have t: "trim s = rev v" by (simp add: trim_def u_def v_def)
  have v: "v \<noteq> []" using assms t by simp
  then have u: "u \<noteq> []" unfolding v_def by auto
  have "last (trim s) = hd v" using v by (simp add: t last_rev)
  moreover have "\<not> is_space (hd v)" using v unfolding v_def by (rule hd_dropWhile)
  ultimately show "\<not> is_space (last (trim s))" by simp
  have "hd (trim s) = last v" using v by (simp add: t hd_rev)
  also have "\<dots> = last (rev u)" using v unfolding v_def by (rule last_dropWhile)
  also have "\<dots> = hd u" using u by (simp add: last_rev)
  finally have "hd (trim s) = hd u" .
  moreover have "\<not> is_space (hd u)" using u unfolding u_def by (rule hd_dropWhile)
  ultimately show "\<not> is_space (hd (trim s))" by simp
qed

lemma content_line_edges:
  assumes "l \<in> set (content_lines content)"
  shows "l \<noteq> []" and "\<not> is_space (hd l)" and "\<not> is_space (last l)"
proof -
  from assms obtain s where l: "l = trim s" and ne: "l \<noteq> []"
    by (auto simp add: content_lines_def)
  show "l \<noteq> []" by (rule ne)
  show "\<not> is_space (hd l)" "\<not> is_space (last l)"
    using trim_edges [of s] ne unfolding l by simp_all
qed

lemma recognized_lang: "recognized l \<longleftrightarrow> l \<in> lang coordinateRegex"
  unfolding recognized_def by (rule regex_match_lang)

lemma recognized_trimmed:
  assumes ne: "l \<noteq> []" and h: "\<not> is_space (hd l)" and t: "\<not> is_space (last l)"
  shows "recognized l \<longleftrightarrow> two_numbers l"
proof
  assume "recognized l"
  then obtain w0 a ws b w2 where l: "l = w0 @ a @ ws @ b @ w2" and p: "list_all is_space w0"
      "js_number a" "ws \<noteq> []" "list_all is_space ws" "js_number b" "list_all is_space w2"
    unfolding recognized_lang lang_coordinate by blast
  have "w0 = []"
  proof (rule ccontr)
    assume "w0 \<noteq> []"
    then obtain c w where w0: "w0 = c # w" by (cases w0) auto
    then have "hd l = c" "is_space c" using l p(1) by simp_all
    with h show False by simp
  qed
  moreover have "w2 = []"
  proof (rule ccontr)
    assume n: "w2 \<noteq> []"
    then have "last l = last w2" using l by simp
    moreover have "is_space (last w2)" using n p(6) by (simp add: list_all_iff)
    ultimately show False using t by simp
  qed
  ultimately have "l = a @ ws @ b" using l by simp
  then show "two_numbers l" unfolding two_numbers_def using p(2,3,4,5) by blast
next
  assume "two_numbers l"
  then obtain a ws b where l: "l = a @ ws @ b" and p: "js_number a" "ws \<noteq> []"
      "list_all is_space ws" "js_number b"
    unfolding two_numbers_def by blast
  have "l = [] @ a @ ws @ b @ []" using l by simp
  moreover have "list_all is_space []" by simp
  ultimately show "recognized l"
    unfolding recognized_lang lang_coordinate using p by blast
qed

lemma spec_number_head:
  assumes "spec_number a"
  shows "a \<noteq> []" and "hd a \<noteq> CHR ''.''"
proof -
  from assms obtain sg ip fr ex where a: "a = sg @ ip @ fr @ ex" and sg: "sign_part sg"
      and ip: "ip \<noteq> []" "list_all is_digit ip"
    unfolding spec_number_def by blast
  obtain c t where ct: "ip = c # t" using ip(1) by (cases ip) auto
  then have c: "is_digit c" using ip(2) by simp
  show "a \<noteq> []" using a ip(1) by simp
  from sg show "hd a \<noteq> CHR ''.''"
    unfolding sign_part_def
  proof (elim disjE)
    assume "sg = []"
    then have "hd a = c" using a ct by simp
    with c show ?thesis by (auto simp add: is_digit_def)
  next
    assume "sg = ''+''"
    then show ?thesis using a by simp
  next
    assume "sg = ''-''"
    then show ?thesis using a by simp
  qed
qed

lemma spec_two_numbers_head:
  assumes "spec_two_numbers l"
  shows "hd l \<noteq> CHR ''.''"
proof -
  from assms obtain a w b where l: "l = a @ w @ b" and a: "spec_number a"
    unfolding spec_two_numbers_def by blast
  have "hd l = hd a" using l spec_number_head(1) [OF a] by simp
  then show ?thesis using spec_number_head(2) [OF a] by simp
qed

text \<open>
  C9 (as stated): a trimmed line is recognized exactly when it is two numbers, each an
  optional sign, digits, an optional decimal fraction and an optional exponent. The pattern
  asks for no digit before the point: the line \<open>.5 .5\<close> is recognized, and its numbers have
  no digits before the fraction.
\<close>

theorem leading_point_counterexample:
  "recognized ''.5 .5'' \<and> \<not> spec_two_numbers ''.5 .5''
   \<and> regex_match coordinateRegex ''.5 .5'' = Some [''.5 .5'', ''.5'', ''.5'']"
proof (intro conjI)
  show m: "regex_match coordinateRegex ''.5 .5'' = Some [''.5 .5'', ''.5'', ''.5'']"
    by (simp add: eval_regex eval_text)
  show "recognized ''.5 .5''" using m by (simp add: recognized_def)
  show "\<not> spec_two_numbers ''.5 .5''"
    using spec_two_numbers_head [of "''.5 .5''"] by auto
qed

text \<open>
  C9 (amended). A trimmed non-empty line of the content is recognized as a coordinate line
  exactly when it is two numbers separated by white space, with nothing before, between or
  after them, where a number is an optional sign, digits or none, an optional point, one or
  more digits, and an optional exponent (\<open>e\<close> or \<open>E\<close>, an optional sign, one or more
  digits). The points that the scan collects are the points of the recognized lines, in the
  order of the lines.
\<close>

theorem coordinate_line_recognized:
  assumes "l \<in> set (content_lines content)"
  shows "(recognized l \<longleftrightarrow> two_numbers l)
    \<and> fst (scan 0 (content_lines content) ([], nm, False))
        = map coordinate_point (filter recognized (content_lines content))"
proof
  show "recognized l \<longleftrightarrow> two_numbers l"
    using content_line_edges [OF assms] by (rule recognized_trimmed)
  show "fst (scan 0 (content_lines content) ([], nm, False))
        = map coordinate_point (filter recognized (content_lines content))"
    by (simp add: scan_points)
qed

theorem coordinate_line_recognized_witness:
  "recognized ''.5 -1e-3'' \<and> two_numbers ''.5 -1e-3''
   \<and> \<not> recognized ''1. 2'' \<and> \<not> two_numbers ''1. 2''
   \<and> fst (scan 0 (content_lines (''.5 -1e-3'' @ NL @ '' 1. 2'' @ NL @ ''3 4'')) ([], ''a'', False))
       = [\<lparr> x = Fin (1 / 2), y = Fin (- 1 / 1000) \<rparr>, \<lparr> x = Fin 3, y = Fin 4 \<rparr>]"
  using coordinate_line_recognized [of "''.5 -1e-3''" "''.5 -1e-3'' @ NL @ '' 1. 2'' @ NL @ ''3 4''" "''a''"]
    coordinate_line_recognized [of "''1. 2''" "''.5 -1e-3'' @ NL @ '' 1. 2'' @ NL @ ''3 4''" "''a''"]
  by (simp add: recognized_def coordinate_point_def eval_regex eval_text eval_float)


section \<open>Properties of the projection\<close>

lemma extent_fold:
  "foldl extent_step (Some (Fin a, Fin b)) (map Fin rs) = Some (Fin (fold min rs a), Fin (fold max rs b))"
proof (induction rs arbitrary: a b)
  case Nil
  show ?case by simp
next
  case (Cons r rs)
  have "extent_step (Some (Fin a, Fin b)) (Fin r) = Some (Fin (min r a), Fin (max r b))"
    by (simp add: jsgt_def min_def max_def)
  then show ?case by (simp add: Cons.IH)
qed

lemma d3_extent_Fin:
  assumes "rs \<noteq> []"
  shows "d3_extent (map Fin rs) = (Fin (Min (set rs)), Fin (Max (set rs)))"
proof -
  obtain r rs' where rs: "rs = r # rs'" using assms by (cases rs) auto
  have "foldl extent_step None (map Fin (r # rs')) = foldl extent_step (Some (Fin r, Fin r)) (map Fin rs')"
    by (simp add: jsle_def)
  also have "\<dots> = Some (Fin (fold min rs' r), Fin (fold max rs' r))" by (rule extent_fold)
  also have "fold min rs' r = Min (set (r # rs'))" by (rule Min.set_eq_fold [symmetric])
  also have "fold max rs' r = Max (set (r # rs'))" by (rule Max.set_eq_fold [symmetric])
  finally show ?thesis unfolding d3_extent_def rs by simp
qed

lemma max2_Fin: "max2 (Fin a) (Fin b) = Fin (max a b)"
  by (simp add: max2_def max_def)

lemma project_extents:
  assumes "d3_extent (map x pts) = (Fin a, Fin b)" and "d3_extent (map y pts) = (Fin c, Fin d)"
    and "pts \<noteq> []" and "w \<noteq> 0"
  shows "AirfoilViewer_scales True pts \<lparr> width = Fin w, height = Fin h \<rparr> =
     Inr (Some \<lparr> xDomain = (Fin (a - (b - a) * (1 / 10)), Fin (b + (b - a) * (1 / 10))),
                 yDomain = (Fin (c - max (d - c) ((b - a) * (3 / 10)) * (1 / 2)),
                            Fin (d + max (d - c) ((b - a) * (3 / 10)) * (1 / 2))),
                 xScale = \<lparr> scale_domain = (Fin (a - (b - a) * (1 / 10)), Fin (b + (b - a) * (1 / 10))),
                            scale_range = (Fin 0, Fin (w - 50 - 40)) \<rparr>,
                 yScale = \<lparr> scale_domain = (Fin (c - max (d - c) ((b - a) * (3 / 10)) * (1 / 2)),
                                            Fin (d + max (d - c) ((b - a) * (3 / 10)) * (1 / 2))),
                            scale_range = (Fin (h - 40 - 40), Fin 0) \<rparr> \<rparr>)"
  unfolding AirfoilViewer_scales_def Let_def assms(1,2)
  using assms(3,4) by (simp add: jssub_def max2_Fin)

lemma project_finite:
  assumes "rs \<noteq> []" and "w \<noteq> 0"
  shows "AirfoilViewer_scales True (map finite_point rs) \<lparr> width = Fin w, height = Fin h \<rparr> =
     Inr (Some \<lparr> xDomain = fin_pair (spec_xDomain rs), yDomain = fin_pair (spec_yDomain rs),
                 xScale = \<lparr> scale_domain = fin_pair (spec_xDomain rs),
                            scale_range = (Fin 0, Fin (w - 50 - 40)) \<rparr>,
                 yScale = \<lparr> scale_domain = fin_pair (spec_yDomain rs),
                            scale_range = (Fin (h - 40 - 40), Fin 0) \<rparr> \<rparr>)"
proof -
  have ne: "map fst rs \<noteq> []" "map snd rs \<noteq> []" using assms(1) by simp_all
  have ex: "d3_extent (map x (map finite_point rs)) = (Fin (Min (fst ` set rs)), Fin (Max (fst ` set rs)))"
    unfolding map_x_finite using d3_extent_Fin [OF ne(1)] by simp
  have ey: "d3_extent (map y (map finite_point rs)) = (Fin (Min (snd ` set rs)), Fin (Max (snd ` set rs)))"
    unfolding map_y_finite using d3_extent_Fin [OF ne(2)] by simp
  have pts: "map finite_point rs \<noteq> []" using assms(1) by simp
  show ?thesis
    unfolding spec_xDomain_def spec_yDomain_def fin_pair_def Let_def fst_conv snd_conv
    by (rule project_extents [OF ex ey pts assms(2)])
qed

lemma scale_apply_finite:
  assumes "d0 \<noteq> d1"
  shows "scale_apply \<lparr> scale_domain = fin_pair (d0, d1), scale_range = (Fin r0, Fin r1) \<rparr> (Fin v)
         = Fin (linear_map (d0, d1) (r0, r1) v)"
proof -
  have "r0 * (1 - t) + r1 * t = r0 + t * (r1 - r0)" for t :: real
    by (simp add: algebra_simps)
  then have "r0 * (1 - (v - d0) / (d1 - d0)) + r1 * ((v - d0) / (d1 - d0))
        = r0 + (v - d0) / (d1 - d0) * (r1 - r0)" .
  then show ?thesis
    using assms by (simp add: scale_apply_def Let_def fin_pair_def jssub_def linear_map_def)
qed

text \<open>
  C5. For a non-empty sequence of points, a mounted element and a width that is not zero,
  the effect computes \<open>xPad = dataWidth * 0.1\<close>, \<open>minHeight = dataWidth * 0.3\<close>,
  \<open>effectiveHeight = max(dataHeight, minHeight)\<close>, \<open>yPad = effectiveHeight * 0.5\<close>, the domains
  \<open>[min x - xPad, max x + xPad]\<close> and \<open>[min y - yPad, max y + yPad]\<close>, and the scales that map
  the x domain linearly onto \<open>[0, width - 50 - 40]\<close> and the y domain linearly onto
  \<open>[height - 40 - 40, 0]\<close>. For points that span \<open>[0, 100]\<close> in x and \<open>[-5, 5]\<close> in y the y
  domain is \<open>[-20, 20]\<close>.
\<close>

theorem project_scales:
  assumes "rs \<noteq> []" and "w \<noteq> 0"
  shows "AirfoilViewer_scales True (map finite_point rs) \<lparr> width = Fin w, height = Fin h \<rparr> =
     Inr (Some \<lparr> xDomain = fin_pair (spec_xDomain rs), yDomain = fin_pair (spec_yDomain rs),
                 xScale = \<lparr> scale_domain = fin_pair (spec_xDomain rs),
                            scale_range = (Fin 0, Fin (w - 50 - 40)) \<rparr>,
                 yScale = \<lparr> scale_domain = fin_pair (spec_yDomain rs),
                            scale_range = (Fin (h - 40 - 40), Fin 0) \<rparr> \<rparr>)
   \<and> (fst (spec_xDomain rs) \<noteq> snd (spec_xDomain rs) \<longrightarrow>
        (\<forall>v. scale_apply \<lparr> scale_domain = fin_pair (spec_xDomain rs),
                           scale_range = (Fin 0, Fin (w - 50 - 40)) \<rparr> (Fin v)
             = Fin (linear_map (spec_xDomain rs) (0, w - 50 - 40) v)))
   \<and> (fst (spec_yDomain rs) \<noteq> snd (spec_yDomain rs) \<longrightarrow>
        (\<forall>v. scale_apply \<lparr> scale_domain = fin_pair (spec_yDomain rs),
                           scale_range = (Fin (h - 40 - 40), Fin 0) \<rparr> (Fin v)
             = Fin (linear_map (spec_yDomain rs) (h - 40 - 40, 0) v)))
   \<and> (Min (fst ` set rs) = 0 \<and> Max (fst ` set rs) = 100
        \<and> Min (snd ` set rs) = - 5 \<and> Max (snd ` set rs) = 5 \<longrightarrow>
        spec_yDomain rs = (- 20, 20))"
proof (intro conjI impI allI)
  show "AirfoilViewer_scales True (map finite_point rs) \<lparr> width = Fin w, height = Fin h \<rparr> =
     Inr (Some \<lparr> xDomain = fin_pair (spec_xDomain rs), yDomain = fin_pair (spec_yDomain rs),
                 xScale = \<lparr> scale_domain = fin_pair (spec_xDomain rs),
                            scale_range = (Fin 0, Fin (w - 50 - 40)) \<rparr>,
                 yScale = \<lparr> scale_domain = fin_pair (spec_yDomain rs),
                            scale_range = (Fin (h - 40 - 40), Fin 0) \<rparr> \<rparr>)"
    by (rule project_finite [OF assms])
next
  fix v assume "fst (spec_xDomain rs) \<noteq> snd (spec_xDomain rs)"
  from scale_apply_finite [OF this, of 0 "w - 50 - 40" v]
  show "scale_apply \<lparr> scale_domain = fin_pair (spec_xDomain rs),
                           scale_range = (Fin 0, Fin (w - 50 - 40)) \<rparr> (Fin v)
             = Fin (linear_map (spec_xDomain rs) (0, w - 50 - 40) v)" by simp
next
  fix v assume "fst (spec_yDomain rs) \<noteq> snd (spec_yDomain rs)"
  from scale_apply_finite [OF this, of "h - 40 - 40" 0 v]
  show "scale_apply \<lparr> scale_domain = fin_pair (spec_yDomain rs),
                           scale_range = (Fin (h - 40 - 40), Fin 0) \<rparr> (Fin v)
             = Fin (linear_map (spec_yDomain rs) (h - 40 - 40, 0) v)" by simp
next
  assume "Min (fst ` set rs) = 0 \<and> Max (fst ` set rs) = 100
        \<and> Min (snd ` set rs) = - 5 \<and> Max (snd ` set rs) = 5"
  then show "spec_yDomain rs = (- 20, 20)"
    by (simp add: spec_yDomain_def Let_def)
qed

theorem project_scales_witness:
  "AirfoilViewer_scales True (map finite_point [(0, 0), (50, 5), (100, 0), (50, - 5)])
     \<lparr> width = Fin 800, height = Fin 400 \<rparr> =
     Inr (Some \<lparr> xDomain = (Fin (- 10), Fin 110), yDomain = (Fin (- 20), Fin 20),
                 xScale = \<lparr> scale_domain = (Fin (- 10), Fin 110), scale_range = (Fin 0, Fin 710) \<rparr>,
                 yScale = \<lparr> scale_domain = (Fin (- 20), Fin 20), scale_range = (Fin 320, Fin 0) \<rparr> \<rparr>)
   \<and> scale_apply \<lparr> scale_domain = (Fin (- 10), Fin 110), scale_range = (Fin 0, Fin 710) \<rparr> (Fin 110)
       = Fin 710
   \<and> scale_apply \<lparr> scale_domain = (Fin (- 20), Fin 20), scale_range = (Fin 320, Fin 0) \<rparr> (Fin 20)
       = Fin 0"
  using project_scales [of "[(0, 0), (50, 5), (100, 0), (50, - 5)]" 800 400]
  by (simp add: spec_xDomain_def spec_yDomain_def fin_pair_def linear_map_def Let_def)

text \<open>
  C6 (as stated): for the empty sequence of points the projection fails with an error. The
  effect returns at once instead, without an error and without a projection.
\<close>

theorem project_empty_returns:
  "AirfoilViewer_scales True [] \<lparr> width = Fin 800, height = Fin 400 \<rparr> = Inr None"
  by (simp add: AirfoilViewer_scales_def)

lemma d3_extent_constant:
  assumes "pts \<noteq> []" and "\<forall>p \<in> set pts. x p = Fin a"
  shows "d3_extent (map x pts) = (Fin a, Fin a)"
proof -
  have m: "map x pts = map Fin (map (\<lambda>p. a) pts)" using assms(2) by simp
  have ne: "map (\<lambda>p. a) pts \<noteq> []" using assms(1) by simp
  have "set (map (\<lambda>p. a) pts) = {a}" using assms(1) by (cases pts) auto
  then show ?thesis unfolding m using d3_extent_Fin [OF ne] by simp
qed

text \<open>
  C6 (amended). The effect never fails. For the empty sequence of points it returns without
  a projection; for every non-empty sequence, with the element mounted and a width that is
  not zero, it computes a projection, and geometry of zero width gives an x domain of zero
  width, not an error.
\<close>

theorem project_total:
  "(\<exists>r. AirfoilViewer_scales mounted pts dimensions = Inr r)
   \<and> (pts = [] \<longrightarrow> AirfoilViewer_scales mounted pts dimensions = Inr None)
   \<and> (pts \<noteq> [] \<and> mounted \<and> width dimensions \<noteq> Fin 0 \<longrightarrow>
        (\<exists>p. AirfoilViewer_scales mounted pts dimensions = Inr (Some p)))
   \<and> (pts \<noteq> [] \<and> mounted \<and> width dimensions \<noteq> Fin 0 \<and> (\<exists>a. \<forall>p \<in> set pts. x p = Fin a) \<longrightarrow>
        (\<exists>p. AirfoilViewer_scales mounted pts dimensions = Inr (Some p) \<and> fst (xDomain p) = snd (xDomain p)))"
proof (intro conjI impI)
  show "\<exists>r. AirfoilViewer_scales mounted pts dimensions = Inr r"
    by (simp add: AirfoilViewer_scales_def Let_def)
  show "AirfoilViewer_scales mounted pts dimensions = Inr None" if "pts = []"
    using that by (simp add: AirfoilViewer_scales_def)
  show "\<exists>p. AirfoilViewer_scales mounted pts dimensions = Inr (Some p)"
    if "pts \<noteq> [] \<and> mounted \<and> width dimensions \<noteq> Fin 0"
    using that by (simp add: AirfoilViewer_scales_def Let_def)
  show "\<exists>p. AirfoilViewer_scales mounted pts dimensions = Inr (Some p) \<and> fst (xDomain p) = snd (xDomain p)"
    if h: "pts \<noteq> [] \<and> mounted \<and> width dimensions \<noteq> Fin 0 \<and> (\<exists>a. \<forall>p \<in> set pts. x p = Fin a)"
  proof -
    from h obtain a where a: "\<forall>p \<in> set pts. x p = Fin a" by blast
    from h have ne: "pts \<noteq> []" by simp
    show ?thesis
      unfolding AirfoilViewer_scales_def Let_def d3_extent_constant [OF ne a]
      using h by (simp add: jssub_def)
  qed
qed

theorem project_total_witness:
  "AirfoilViewer_scales True [\<lparr> x = Fin 3, y = Fin (- 5) \<rparr>, \<lparr> x = Fin 3, y = Fin 5 \<rparr>]
     \<lparr> width = Fin 800, height = Fin 400 \<rparr> =
     Inr (Some \<lparr> xDomain = (Fin 3, Fin 3), yDomain = (Fin (- 10), Fin 10),
                 xScale = \<lparr> scale_domain = (Fin 3, Fin 3), scale_range = (Fin 0, Fin 710) \<rparr>,
                 yScale = \<lparr> scale_domain = (Fin (- 10), Fin 10), scale_range = (Fin 320, Fin 0) \<rparr> \<rparr>)
   \<and> AirfoilViewer_scales True [] \<lparr> width = Fin 800, height = Fin 400 \<rparr> = Inr None"
  using project_total [of True "[\<lparr> x = Fin 3, y = Fin (- 5) \<rparr>, \<lparr> x = Fin 3, y = Fin 5 \<rparr>]"
      "\<lparr> width = Fin 800, height = Fin 400 \<rparr>"]
    project_total [of True "[]" "\<lparr> width = Fin 800, height = Fin 400 \<rparr>"]
  by (simp add: AirfoilViewer_scales_def Let_def d3_extent_def jsle_def jsgt_def jssub_def max2_def)


section \<open>The captures of a coordinate line\<close>

lemma groupless_well_grouped: "groupless r \<Longrightarrow> well_grouped r \<and> group_count r = 0"
  by (induction r) simp_all

lemma counts_Chr: "counts (Chr c) (s, caps)"
  by (cases s) (auto simp add: counts_def run.simps(1))

lemma counts_Seq:
  assumes "counts r1 st" and "\<And>m. m \<in> set (run r1 st) \<Longrightarrow> counts r2 m"
  shows "counts (Seq r1 r2) st"
  unfolding counts_def
proof
  fix m assume "m \<in> set (run (Seq r1 r2) st)"
  then obtain m1 where m1: "m1 \<in> set (run r1 st)" and m: "m \<in> set (run r2 m1)"
    unfolding run_Seq_set by blast
  have "length (snd m1) = length (snd st) + group_count r1"
    using assms(1) m1 unfolding counts_def by blast
  moreover have "length (snd m) = length (snd m1) + group_count r2"
    using assms(2) [OF m1] m unfolding counts_def by blast
  ultimately show "length (snd m) = length (snd st) + group_count (Seq r1 r2)" by simp
qed

lemma counts_Opt:
  assumes "counts r st" and "group_count r = 0"
  shows "counts (Opt r) st"
  using assms by (auto simp add: counts_def run.simps(3))

lemma counts_Star:
  assumes 1: "counts r (s, caps)" and 0: "group_count r = 0"
    and 2: "\<And>m. m \<in> set (run r (s, caps)) \<Longrightarrow> length (fst m) < length s \<Longrightarrow> counts (Star r) m"
  shows "counts (Star r) (s, caps)"
  unfolding counts_def
proof
  fix m assume "m \<in> set (run (Star r) (s, caps))"
  then consider "m = (s, caps)"
    | m1 where "m1 \<in> set (run r (s, caps))" "length (fst m1) < length s" "m \<in> set (run (Star r) m1)"
    unfolding run_Star_set by blast
  then show "length (snd m) = length (snd (s, caps)) + group_count (Star r)"
  proof cases
    case 1
    then show ?thesis by simp
  next
    case 2
    have "length (snd m1) = length caps" using 1 0 2(1) unfolding counts_def by force
    moreover have "length (snd m) = length (snd m1)"
      using assms(3) [OF 2(1,2)] 2(3) unfolding counts_def by force
    ultimately show ?thesis by simp
  qed
qed

lemma counts_Group:
  assumes "counts r (s, caps)"
  shows "counts (Group r) (s, caps)"
  using assms by (auto simp add: counts_def run.simps(5))

lemma run_counts: "well_grouped r \<Longrightarrow> counts r st"
proof (induction r st rule: run.induct)
  case (1 c s caps)
  show ?case by (rule counts_Chr)
next
  case (2 r1 r2 st)
  then show ?case by (intro counts_Seq) simp_all
next
  case (3 r st)
  then show ?case using groupless_well_grouped [of r] by (intro counts_Opt) simp_all
next
  case (4 r s caps)
  have g: "well_grouped r" "group_count r = 0"
    using 4(3) groupless_well_grouped [of r] by simp_all
  show ?case
  proof (rule counts_Star)
    show "counts r (s, caps)" using "4.IH"(1) g(1) by simp
    show "group_count r = 0" by (rule g(2))
  next
    fix m assume m: "m \<in> set (run r (s, caps))" "length (fst m) < length s"
    obtain s' caps' where mm: "m = (s', caps')" by (cases m)
    show "counts (Star r) m"
      unfolding mm by (rule "4.IH"(2) [OF m(1) [unfolded mm] refl]) (use m(2) mm 4(3) in simp_all)
  qed
next
  case (5 r s caps)
  then show ?case by (intro counts_Group) simp
qed

lemma regex_match_Some:
  assumes "regex_match r s = Some m"
  shows "\<exists>rest caps. (rest, caps) \<in> set (run r (s, [])) \<and> m = s # caps"
proof -
  from assms obtain rest caps others where
    f: "filter (\<lambda>(rest, caps). rest = []) (run r (s, [])) = (rest, caps) # others" and m: "m = s # caps"
    by (auto simp add: regex_match_def split: list.splits)
  have "(rest, caps) \<in> set (filter (\<lambda>(rest, caps). rest = []) (run r (s, [])))"
    unfolding f by simp
  then have "(rest, caps) \<in> set (run r (s, []))" by auto
  with m show ?thesis by blast
qed

lemma regex_match_length:
  assumes "well_grouped r" and "regex_match r s = Some m"
  shows "length m = Suc (group_count r)"
proof -
  from regex_match_Some [OF assms(2)] obtain rest caps where
    r: "(rest, caps) \<in> set (run r (s, []))" and m: "m = s # caps" by blast
  with run_counts [OF assms(1), of "(s, [])"] have "length caps = group_count r"
    unfolding counts_def by force
  then show ?thesis using m by simp
qed

lemma coordinate_match_length:
  assumes "regex_match coordinateRegex l = Some m"
  shows "length m = 3"
proof -
  have "well_grouped coordinateRegex" "group_count coordinateRegex = 2"
    by (simp_all add: coordinateRegex_def numberRegex_def)
  with regex_match_length [OF _ assms] show ?thesis by simp
qed

lemma keeps_Chr: "keeps (Chr c) (s, caps)"
  by (cases s) (auto simp add: keeps_def run.simps(1))

lemma keeps_Seq:
  assumes "keeps r1 st" and "\<And>m. m \<in> set (run r1 st) \<Longrightarrow> keeps r2 m"
  shows "keeps (Seq r1 r2) st"
  unfolding keeps_def
proof
  fix m assume "m \<in> set (run (Seq r1 r2) st)"
  then obtain m1 where m1: "m1 \<in> set (run r1 st)" and m: "m \<in> set (run r2 m1)"
    unfolding run_Seq_set by blast
  have "snd m1 = snd st" using assms(1) m1 unfolding keeps_def by blast
  moreover have "snd m = snd m1" using assms(2) [OF m1] m unfolding keeps_def by blast
  ultimately show "snd m = snd st" by simp
qed

lemma keeps_Opt: "keeps r st \<Longrightarrow> keeps (Opt r) st"
  by (auto simp add: keeps_def run.simps(3))

lemma keeps_Star:
  assumes 1: "keeps r (s, caps)"
    and 2: "\<And>m. m \<in> set (run r (s, caps)) \<Longrightarrow> length (fst m) < length s \<Longrightarrow> keeps (Star r) m"
  shows "keeps (Star r) (s, caps)"
  unfolding keeps_def
proof
  fix m assume "m \<in> set (run (Star r) (s, caps))"
  then consider "m = (s, caps)"
    | m1 where "m1 \<in> set (run r (s, caps))" "length (fst m1) < length s" "m \<in> set (run (Star r) m1)"
    unfolding run_Star_set by blast
  then show "snd m = snd (s, caps)"
  proof cases
    case 1
    then show ?thesis by simp
  next
    case 2
    have "snd m1 = caps" using 1 2(1) unfolding keeps_def by force
    moreover have "snd m = snd m1" using assms(2) [OF 2(1,2)] 2(3) unfolding keeps_def by blast
    ultimately show ?thesis by simp
  qed
qed

lemma run_keeps: "groupless r \<Longrightarrow> keeps r st"
proof (induction r st rule: run.induct)
  case (1 c s caps)
  show ?case by (rule keeps_Chr)
next
  case (2 r1 r2 st)
  then show ?case by (intro keeps_Seq) simp_all
next
  case (3 r st)
  then show ?case by (intro keeps_Opt) simp
next
  case (4 r s caps)
  show ?case
  proof (rule keeps_Star)
    show "keeps r (s, caps)" using 4 by simp
  next
    fix m assume m: "m \<in> set (run r (s, caps))" "length (fst m) < length s"
    obtain s' caps' where mm: "m = (s', caps')" by (cases m)
    show "keeps (Star r) m"
      unfolding mm by (rule "4.IH"(2) [OF m(1) [unfolded mm] refl]) (use m(2) mm 4(3) in simp_all)
  qed
next
  case (5 r s caps)
  then show ?case by simp
qed

lemma run_Group_capture:
  assumes g: "groupless r" and m: "m \<in> set (run (Group r) st)"
  shows "\<exists>p. p \<in> lang r \<and> fst st = p @ fst m \<and> snd m = snd st @ [p]"
proof -
  obtain s caps where st: "st = (s, caps)" by (cases st)
  from m obtain s' caps' where m': "(s', caps') \<in> set (run r (s, caps))"
      and mm: "m = (s', caps' @ [take (length s - length s') s])"
    unfolding st by (auto simp add: run.simps(5))
  have c: "caps' = caps" using run_keeps [OF g, of "(s, caps)"] m' unfolding keeps_def by force
  have "s' \<in> fst ` set (run r (s, caps))" using m' by force
  then obtain p where p: "p \<in> lang r" "s = p @ s'"
    using run_ends [of r "(s, caps)"] unfolding ends_def by auto
  have "take (length s - length s') s = p" using p(2) by simp
  then show ?thesis using p mm c st by simp
qed

lemma coordinate_match_groups:
  assumes "regex_match coordinateRegex l = Some m"
  shows "\<exists>g1 g2. m = [l, g1, g2] \<and> js_number g1 \<and> js_number g2"
proof -
  define A where "A = Star (Chr Space)"
  define G where "G = Group numberRegex"
  define P where "P = Plus (Chr Space)"
  have cr: "coordinateRegex = Seq A (Seq G (Seq P (Seq G A)))"
    by (simp add: coordinateRegex_def A_def G_def P_def)
  have gl: "groupless A" "groupless P" "groupless numberRegex"
    by (simp_all add: A_def P_def numberRegex_def)
  from regex_match_Some [OF assms] obtain rest caps where
    r: "(rest, caps) \<in> set (run coordinateRegex (l, []))" and m: "m = l # caps" by blast
  from r obtain m1 m2 m3 m4 where
    1: "m1 \<in> set (run A (l, []))" and 2: "m2 \<in> set (run G m1)" and 3: "m3 \<in> set (run P m2)"
    and 4: "m4 \<in> set (run G m3)" and 5: "(rest, caps) \<in> set (run A m4)"
    unfolding cr run_Seq_set by blast
  have c1: "snd m1 = []" using run_keeps [OF gl(1), of "(l, [])"] 1 unfolding keeps_def by force
  from run_Group_capture [OF gl(3) 2 [unfolded G_def]] obtain g1 where
    g1: "g1 \<in> lang numberRegex" "snd m2 = snd m1 @ [g1]" by blast
  have c3: "snd m3 = snd m2" using run_keeps [OF gl(2), of m2] 3 unfolding keeps_def by blast
  from run_Group_capture [OF gl(3) 4 [unfolded G_def]] obtain g2 where
    g2: "g2 \<in> lang numberRegex" "snd m4 = snd m3 @ [g2]" by blast
  have c5: "caps = snd m4" using run_keeps [OF gl(1), of m4] 5 unfolding keeps_def by force
  have "m = [l, g1, g2]" using m c1 g1(2) c3 g2(2) c5 by simp
  then show ?thesis using g1(1) g2(1) unfolding lang_number by blast
qed

text \<open>
  The captures of a coordinate line are numbers, and \<open>parseFloat\<close> gives a finite value on
  a number: the recognized points are finite.
\<close>

lemma digit_is_not:
  assumes "is_digit c"
  shows "\<not> is_space c" "c \<noteq> CHR ''-''" "c \<noteq> CHR ''+''" "c \<noteq> CHR ''.''" "c \<noteq> CHR ''I''"
  using assms by (auto simp add: is_digit_def is_space_def)

lemma point_is_not: "\<not> is_space (CHR ''.'')" "\<not> is_digit (CHR ''.'')"
  by (simp_all add: is_digit_def is_space_def)

lemma js_number_body:
  assumes "js_number g"
  shows "\<exists>sg c t. g = sg @ c # t \<and> sign_part sg
           \<and> (is_digit c \<or> (c = CHR ''.'' \<and> (\<exists>d u. t = d # u \<and> is_digit d)))"
proof -
  from assms obtain sg ip pt fp ex where g: "g = sg @ ip @ pt @ fp @ ex" and sg: "sign_part sg"
      and ip: "list_all is_digit ip" and pt: "pt = [] \<or> pt = ''.''"
      and fp: "fp \<noteq> []" "list_all is_digit fp"
    unfolding js_number_def by blast
  obtain d fp' where f: "fp = d # fp'" using fp(1) by (cases fp) auto
  then have d: "is_digit d" using fp(2) by simp
  show ?thesis
  proof (cases ip)
    case (Cons i ip')
    then have "is_digit i" using ip by simp
    moreover have "g = sg @ i # (ip' @ pt @ fp @ ex)" using g Cons by simp
    ultimately show ?thesis using sg by blast
  next
    case Nil
    from pt show ?thesis
    proof
      assume "pt = []"
      then have "g = sg @ d # (fp' @ ex)" using g Nil f by simp
      with d sg show ?thesis by blast
    next
      assume "pt = ''.''"
      then have "g = sg @ CHR ''.'' # (d # (fp' @ ex))" using g Nil f by simp
      with d sg show ?thesis by blast
    qed
  qed
qed

lemma parseFloat_unsigned:
  assumes "is_digit c \<or> (c = CHR ''.'' \<and> (\<exists>d u. t = d # u \<and> is_digit d))"
  shows "take 8 (c # t) \<noteq> ''Infinity''"
    and "\<not> (takeWhile is_digit (c # t) = []
           \<and> (case dropWhile is_digit (c # t) of [] \<Rightarrow> []
               | a # b \<Rightarrow> if a = CHR ''.'' then takeWhile is_digit b else []) = [])"
  using assms by (auto simp add: digit_is_not point_is_not is_digit_def)

lemma parseFloat_finite:
  assumes sg: "sign_part sg"
    and c: "is_digit c \<or> (c = CHR ''.'' \<and> (\<exists>d u. t = d # u \<and> is_digit d))"
  shows "\<exists>v. parseFloat (sg @ c # t) = Fin v"
proof -
  have c0: "\<not> is_space c" "c \<noteq> CHR ''-''" "c \<noteq> CHR ''+''"
    using c digit_is_not point_is_not by auto
  from sg show ?thesis unfolding sign_part_def
  proof (elim disjE)
    assume "sg = []"
    then show ?thesis
      using c0 parseFloat_unsigned [OF c]
      by (simp add: parseFloat_def Let_def)
  next
    assume "sg = ''+''"
    then show ?thesis
      using parseFloat_unsigned [OF c]
      by (simp add: parseFloat_def Let_def is_space_def)
  next
    assume "sg = ''-''"
    then show ?thesis
      using parseFloat_unsigned [OF c]
      by (simp add: parseFloat_def Let_def is_space_def)
  qed
qed

lemma parseFloat_number: "js_number g \<Longrightarrow> \<exists>v. parseFloat g = Fin v"
  using js_number_body [of g] parseFloat_finite by blast

lemma coordinate_point_finite:
  assumes "recognized l"
  shows "\<exists>c. coordinate_point l = finite_point c"
proof -
  from assms obtain m where m: "regex_match coordinateRegex l = Some m"
    unfolding recognized_def by blast
  from coordinate_match_groups [OF m] obtain g1 g2 where
    g: "m = [l, g1, g2]" "js_number g1" "js_number g2" by blast
  from parseFloat_number [OF g(2)] parseFloat_number [OF g(3)] obtain a b where
    "parseFloat g1 = Fin a" "parseFloat g2 = Fin b" by blast
  then have "coordinate_point l = finite_point (a, b)"
    by (simp add: coordinate_point_def m g(1) finite_point_def)
  then show ?thesis ..
qed

lemma map_finite_points:
  assumes "\<forall>l \<in> set ls. \<exists>c. f l = finite_point c"
  shows "\<exists>rs. map f ls = map finite_point rs"
  using assms
proof (induction ls)
  case Nil
  have "map f [] = map finite_point []" by simp
  then show ?case ..
next
  case (Cons l ls)
  then obtain c rs where "f l = finite_point c" "map f ls = map finite_point rs" by auto
  then have "map f (l # ls) = map finite_point (c # rs)" by simp
  then show ?case ..
qed

lemma raw_points_finite: "\<exists>rs. raw_points content = map finite_point rs"
  unfolding raw_points_def
  by (rule map_finite_points) (use coordinate_point_finite in auto)


end
